theory Spec2Isabelle
  imports Complex_Main
begin

section \<open>JavaScript strings and values\<close>

text \<open>
  A JavaScript string is a sequence of UTF-16 code units; the regular expressions of the
  sources carry no \<open>u\<close> flag, so they too work on code units. A code unit is a natural
  number here, and \<open>js\<close> turns an ASCII literal into its code units.
\<close>

type_synonym jschar = nat
type_synonym jsstring = "jschar list"
type_synonym bytes = "nat list"

definition js :: "string \<Rightarrow> jsstring" where
  "js s = map of_char s"

text \<open>Truthiness of an optional string: \<open>undefined\<close> and \<open>''\<close> are falsy.\<close>

fun truthy :: "jsstring option \<Rightarrow> bool" where
  "truthy None = False"
| "truthy (Some s) = (s \<noteq> [])"

text \<open>\<open>a || b\<close> on an optional string \<open>a\<close> and a string \<open>b\<close>.\<close>

fun or_else :: "jsstring option \<Rightarrow> jsstring \<Rightarrow> jsstring" where
  "or_else None d = d"
| "or_else (Some s) d = (if s = [] then d else s)"

text \<open>\<open>Array.prototype.join\<close> on an array of strings.\<close>

fun join :: "jsstring \<Rightarrow> jsstring list \<Rightarrow> jsstring" where
  "join sep [] = []"
| "join sep [x] = x"
| "join sep (x # y # ys) = x @ sep @ join sep (y # ys)"

text \<open>
  \<open>s.replace(/c/g, rep)\<close> for a one-character pattern \<open>c\<close> and a replacement text
  without \<open>$\<close>: every occurrence of the character becomes the replacement.
\<close>

definition replace_char :: "jschar \<Rightarrow> jsstring \<Rightarrow> jsstring \<Rightarrow> jsstring" where
  "replace_char c rep s = concat (map (\<lambda>x. if x = c then rep else [x]) s)"

text \<open>Decimal rendering of the integers that the templates interpolate.\<close>

fun show_nat :: "nat \<Rightarrow> jsstring" where
  "show_nat n = (if n < 10 then [48 + n] else show_nat (n div 10) @ [48 + n mod 10])"

definition show_int :: "int \<Rightarrow> jsstring" where
  "show_int i = (if i < 0 then js ''-'' @ show_nat (nat (- i)) else show_nat (nat i))"

text \<open>A literal at the start of the input: what follows it, when it matches.\<close>

definition strip_prefix :: "jsstring \<Rightarrow> jsstring \<Rightarrow> jsstring option" where
  "strip_prefix p s = (if take (length p) s = p then Some (drop (length p) s) else None)"

text \<open>
  A JavaScript \<open>Map\<close> keeps its keys in insertion order, and \<open>set\<close> on a key that is
  present replaces the value in place: an association list. The properties of an object
  that is built by defining one property after the other behave in the same way.
\<close>

fun Map_get :: "('k \<times> 'v) list \<Rightarrow> 'k \<Rightarrow> 'v option" where
  "Map_get [] k = None"
| "Map_get ((k', v) # m) k = (if k' = k then Some v else Map_get m k)"

fun Map_set :: "('k \<times> 'v) list \<Rightarrow> 'k \<Rightarrow> 'v \<Rightarrow> ('k \<times> 'v) list" where
  "Map_set [] k v = [(k, v)]"
| "Map_set ((k', v') # m) k v =
     (if k' = k then (k, v) # m else (k', v') # Map_set m k v)"

text \<open>
  A JavaScript number is an IEEE-754 double: not-a-number, the two infinities, negative
  zero, or the rational that a finite double denotes, zero being the positive one. No
  arithmetic is done on the numbers of a post; they are printed and read, which is the
  runtime's work (see the runtime library below).
\<close>

datatype number = NaN | PosInfinity | NegInfinity | NegZero | Finite rat

fun isFinite :: "number \<Rightarrow> bool" where
  "isFinite NaN = False"
| "isFinite PosInfinity = False"
| "isFinite NegInfinity = False"
| "isFinite NegZero = True"
| "isFinite (Finite q) = True"

text \<open>
  A value as \<open>JSON.stringify\<close> and \<open>JSON.parse\<close> see it: \<open>null\<close>, a boolean, a number,
  a string, an array, or an object with its own enumerable string-keyed properties in
  their order. A property whose value is \<open>undefined\<close> is not listed: \<open>JSON.stringify\<close>
  skips it, and an object with the property left out is the same data.
\<close>

datatype jsvalue =
    Null
  | Boolean bool
  | Number number
  | String jsstring
  | Array "jsvalue list"
  | Object "(jsstring \<times> jsvalue) list"

section \<open>Data model (lib/types.ts)\<close>

text \<open>
  \<open>WixBlogPost\<close>, field by field; \<open>id\<close> is named \<open>pid\<close>, and the image's \<open>url\<close>,
  \<open>height\<close> and \<open>width\<close> carry the prefix \<open>image_\<close>. The status arrives from the remote
  API as a string and is tested for truthiness, so it is an optional string rather than
  the three-valued enumeration; the fields that the code reads through \<open>?.\<close> are
  optional. An optional field that is absent or \<open>undefined\<close> is \<open>None\<close>. \<open>seoData\<close>, of
  type \<open>any\<close>, is taken to be data: a value of the type above.
\<close>

record image_t =
  image_url :: jsstring
  altText :: "jsstring option"
  image_height :: "number option"
  image_width :: "number option"

record wixMedia_t =
  image :: "image_t option"

record media_t =
  wixMedia :: "wixMedia_t option"
  displayed :: bool

record WixBlogPost =
  pid :: jsstring
  title :: jsstring
  excerpt :: "jsstring option"
  contentText :: "jsstring option"
  url :: "jsstring option"
  firstPublishedDate :: jsstring
  lastPublishedDate :: jsstring
  status :: "jsstring option"
  slug :: jsstring
  featured :: bool
  categoryIds :: "jsstring list option"
  tagIds :: "jsstring list"
  relatedPostIds :: "jsstring list"
  membersOnly :: "bool option"
  hashtags :: "jsstring list option"
  commentingEnabled :: bool
  minutesToRead :: number
  viewCount :: "number option"
  likeCount :: "number option"
  language :: jsstring
  media :: "media_t option"
  seoData :: "jsvalue option"
  localImagePaths :: "jsstring list option"
  coverImageLocalPath :: "jsstring option"

text \<open>\<open>post.media?.wixMedia?.image\<close>\<close>

definition cover_image :: "WixBlogPost \<Rightarrow> image_t option" where
  "cover_image post =
     (case media post of None \<Rightarrow> None
      | Some m \<Rightarrow> (case wixMedia m of None \<Rightarrow> None | Some wm \<Rightarrow> image wm))"

datatype ExportFormat = Markdown | Json | Csv | All

record ExportOptions =
  format :: ExportFormat
  includeContent :: bool
  includeImages :: bool
  downloadImages :: bool
  outputDir :: jsstring
  filename :: "jsstring option"
  customer_opt :: "jsstring option"
  bundleTitle :: "jsstring option"
  bundleZip :: bool
  concurrency :: nat
  retry :: nat
  timeoutMs :: nat
  dryRun :: bool

record ImageDownloadResult =
  postId :: jsstring
  originalUrl :: jsstring
  localPath :: "jsstring option"
  success :: bool
  error :: "jsstring option"

record status_counts =
  total :: nat
  published :: nat
  draft :: nat
  scheduled :: nat

record image_stats =
  attempted :: nat
  downloaded :: nat
  failed :: nat

record tag_count =
  tag :: jsstring
  count :: nat

record image_failure =
  failure_postId :: jsstring
  failure_url :: jsstring
  failure_error :: jsstring

record SummaryReport =
  customer :: jsstring
  counts :: status_counts
  images :: image_stats
  tagsTop10 :: "tag_count list"
  failures :: "image_failure list"

section \<open>Runtime library\<close>

text \<open>
  The functions of the JavaScript runtime and of Node's \<open>url\<close>, \<open>path\<close> and \<open>crypto\<close>
  modules that the sources call are parameters of the model: \<open>String.toLowerCase\<close>,
  \<open>new URL(u)\<close> (the protocol and the pathname, or nothing when the constructor
  throws), \<open>path.join\<close>, \<open>path.normalize\<close>, \<open>path.extname\<close>, the directories above a
  path, outermost first (those that \<open>mkdir\<close> creates with \<open>recursive\<close> when they are
  missing), the hexadecimal MD5 digest of a buffer, the UTF-8 encoding of a string that
  \<open>Hash.update\<close> applies to one, the decimal rendering of a number (\<open>Number::toString\<close>)
  and the number that a numeric literal of a JSON text denotes (the double nearest to
  it).
\<close>

record platform =
  toLowerCase :: "jsstring \<Rightarrow> jsstring"
  parse_url :: "jsstring \<Rightarrow> (jsstring \<times> jsstring) option"
  path_join :: "jsstring list \<Rightarrow> jsstring"
  path_normalize :: "jsstring \<Rightarrow> jsstring"
  path_extname :: "jsstring \<Rightarrow> jsstring"
  path_parents :: "jsstring \<Rightarrow> jsstring list"
  md5_hex :: "bytes \<Rightarrow> jsstring"
  utf8 :: "jsstring \<Rightarrow> bytes"
  number_toString :: "number \<Rightarrow> jsstring"
  string_toNumber :: "jsstring \<Rightarrow> number"

section \<open>Markdown image references (lib/utils.ts)\<close>

text \<open>
  The character classes of the two regular expressions: \<open>\s\<close> (white space and line
  terminators) and \<open>.\<close> (anything but a line terminator).
\<close>

definition is_space :: "jschar \<Rightarrow> bool" where
  "is_space c \<longleftrightarrow>
     c \<in> {0x09, 0x0A, 0x0B, 0x0C, 0x0D, 0x20, 0xA0, 0x1680, 0x2028, 0x2029, 0x202F, 0x205F,
          0x3000, 0xFEFF}
     \<or> (0x2000 \<le> c \<and> c \<le> 0x200A)"

definition is_line_terminator :: "jschar \<Rightarrow> bool" where
  "is_line_terminator c \<longleftrightarrow> c \<in> {0x0A, 0x0D, 0x2028, 0x2029}"

text \<open>\<open>[^\s)]\<close>\<close>

definition url_char :: "jschar \<Rightarrow> bool" where
  "url_char c \<longleftrightarrow> \<not> is_space c \<and> c \<noteq> 0x29"

text \<open>
  \<open>(https?:\/\/[^\s)]+)\)\<close> at the start of the input: the captured URL and what
  follows the closing parenthesis. \<open>s?\<close> takes the \<open>s\<close> when \<open>://\<close> follows it; the
  greedy class takes every character up to the first white space or \<open>)\<close>, and no
  shorter run can be followed by \<open>)\<close>.
\<close>

definition match_url :: "jsstring \<Rightarrow> (jsstring \<times> jsstring) option" where
  "match_url s =
     (case (case strip_prefix (js ''https://'') s of
              Some s' \<Rightarrow> Some (js ''https://'', s')
            | None \<Rightarrow> map_option (Pair (js ''http://'')) (strip_prefix (js ''http://'') s)) of
        None \<Rightarrow> None
      | Some (scheme, s') \<Rightarrow>
          (case dropWhile url_char s' of
             [] \<Rightarrow> None
           | c # rest \<Rightarrow>
               if takeWhile url_char s' \<noteq> [] \<and> c = 0x29
               then Some (scheme @ takeWhile url_char s', rest) else None))"

text \<open>
  \<open>/!\[([^\]]*)\]\((https?:\/\/[^\s)]+)\)/\<close> at the start of the input: the
  alt text, the URL and what follows the match. The alt text runs to the first \<open>]\<close>.
\<close>

definition match_image :: "jsstring \<Rightarrow> (jsstring \<times> jsstring \<times> jsstring) option" where
  "match_image s =
     (case strip_prefix (js ''!['') s of
        None \<Rightarrow> None
      | Some s' \<Rightarrow>
          (case strip_prefix (js '']('') (dropWhile (\<lambda>c. c \<noteq> 0x5D) s') of
             None \<Rightarrow> None
           | Some s'' \<Rightarrow>
               (case match_url s'' of
                  None \<Rightarrow> None
                | Some (u, rest) \<Rightarrow> Some (takeWhile (\<lambda>c. c \<noteq> 0x5D) s', u, rest))))"

text \<open>A match is not empty: what follows it is shorter than the input.\<close>

lemma match_image_shorter:
  assumes "match_image s = Some (alt, u, rest)"
  shows "length rest < length s"
proof -
  from assms obtain s' s'' where s': "strip_prefix (js ''!['') s = Some s'"
    and s'': "strip_prefix (js '']('') (dropWhile (\<lambda>c. c \<noteq> 0x5D) s') = Some s''"
    and mu: "match_url s'' = Some (u, rest)"
    by (auto simp: match_image_def split: option.splits)
  from s' have "length s' \<le> length s"
    by (auto simp: strip_prefix_def split: if_splits)
  moreover from s'' have "length s'' \<le> length (dropWhile (\<lambda>c. c \<noteq> 0x5D) s')"
    by (auto simp: strip_prefix_def split: if_splits)
  moreover have "length (dropWhile (\<lambda>c. c \<noteq> 0x5D) s') \<le> length s'"
    by (rule length_dropWhile_le)
  moreover from mu obtain n where d: "dropWhile url_char (drop n s'') = 0x29 # rest"
    by (auto simp: match_url_def strip_prefix_def split: option.splits if_splits list.splits)
  have "length (dropWhile url_char (drop n s'')) \<le> length (drop n s'')"
    by (rule length_dropWhile_le)
  with d have "length rest < length s''" by simp
  ultimately show ?thesis by simp
qed

text \<open>
  \<open>markdown.replace(imageRegex, callback)\<close> with the global flag: at each position
  the expression is tried; where it matches, the callback's result stands for the matched
  text (handed to the callback with the two groups) and the scan goes on after the
  match, elsewhere the character is kept.
\<close>

function replace_images ::
  "(jsstring \<Rightarrow> jsstring \<Rightarrow> jsstring \<Rightarrow> jsstring) \<Rightarrow> jsstring \<Rightarrow> jsstring" where
  "replace_images f [] = []"
| "replace_images f (c # cs) =
     (case match_image (c # cs) of
        None \<Rightarrow> c # replace_images f cs
      | Some (alt, u, rest) \<Rightarrow>
          f (take (length (c # cs) - length rest) (c # cs)) alt u @ replace_images f rest)"
  by pat_completeness auto
termination
  by (relation "measure (\<lambda>(f, s). length s)") (auto dest: match_image_shorter)

text \<open>
  \<open>rewriteMarkdownImageUrls\<close>. The mapping is a JavaScript \<open>Map\<close> that is only read
  here; \<open>if (localPath)\<close> is false for an absent key and for the empty string.
\<close>

definition rewriteMarkdownImageUrls :: "jsstring \<Rightarrow> (jsstring \<rightharpoonup> jsstring) \<Rightarrow> jsstring" where
  "rewriteMarkdownImageUrls markdown urlToLocalPath =
     replace_images
       (\<lambda>match altText u.
          if truthy (urlToLocalPath u)
          then js ''!['' @ altText @ js '']('' @ the (urlToLocalPath u) @ js '')''
          else match)
       markdown"

section \<open>Path and naming utilities (lib/utils.ts)\<close>

text \<open>\<open>s.replace(/c+/g, d)\<close> for a character class: each maximal run becomes \<open>d\<close>.\<close>

function collapse_runs :: "(jschar \<Rightarrow> bool) \<Rightarrow> jsstring \<Rightarrow> jsstring \<Rightarrow> jsstring" where
  "collapse_runs P d [] = []"
| "collapse_runs P d (c # cs) =
     (if P c then d @ collapse_runs P d (dropWhile P cs) else c # collapse_runs P d cs)"
  by pat_completeness auto
termination
  by (relation "measure (\<lambda>(P, d, s). length s)") (auto simp: length_dropWhile_le less_Suc_eq_le)

definition slug_char :: "jschar \<Rightarrow> bool" where
  "slug_char c \<longleftrightarrow>
     (0x61 \<le> c \<and> c \<le> 0x7A) \<or> (0x30 \<le> c \<and> c \<le> 0x39) \<or> c = 0x2D \<or> c = 0x5F \<or> c = 0x2E"

definition sanitizeFilename :: "platform \<Rightarrow> jsstring \<Rightarrow> jsstring" where
  "sanitizeFilename pf input =
     (let s1 = toLowerCase pf input;
          s2 = collapse_runs is_space (js ''-'') s1;
          s3 = filter slug_char s2;
          s4 = collapse_runs (\<lambda>c. c = 0x2D) (js ''-'') s3
      in rev (dropWhile (\<lambda>c. c = 0x2D) (rev (dropWhile (\<lambda>c. c = 0x2D) s4))))"

text \<open>A buffer is truthy even when empty, so the URL is hashed only when no buffer is passed.\<close>

definition generateImageHash :: "platform \<Rightarrow> jsstring \<Rightarrow> bytes option \<Rightarrow> jsstring" where
  "generateImageHash pf u content =
     (case content of
        Some c \<Rightarrow> take 8 (md5_hex pf c)
      | None \<Rightarrow> take 8 (md5_hex pf (utf8 pf u)))"

definition validExts :: "jsstring list" where
  "validExts = [js ''.jpg'', js ''.jpeg'', js ''.png'', js ''.gif'', js ''.webp'', js ''.svg'',
                js ''.bmp'']"

definition getFileExtensionFromUrl :: "platform \<Rightarrow> jsstring \<Rightarrow> jsstring" where
  "getFileExtensionFromUrl pf u =
     (case parse_url pf u of
        None \<Rightarrow> js ''.jpg''
      | Some (protocol, pathname) \<Rightarrow>
          (let ext = toLowerCase pf (path_extname pf pathname)
           in if ext \<in> set validExts then ext else js ''.jpg''))"

definition isValidImageUrl :: "platform \<Rightarrow> jsstring \<Rightarrow> bool" where
  "isValidImageUrl pf u =
     (case parse_url pf u of
        None \<Rightarrow> False
      | Some (protocol, pathname) \<Rightarrow> protocol = js ''http:'' \<or> protocol = js ''https:'')"

definition createSafePath :: "platform \<Rightarrow> jsstring list \<Rightarrow> jsstring" where
  "createSafePath pf parts = path_normalize pf (path_join pf parts)"

text \<open>
  \<open>/!\[.*?\]\((https?:\/\/[^\s)]+)\)/\<close> at the start of the input: the lazy \<open>.*?\<close>
  stops at the first position, reached over characters that are not line terminators,
  where \<open>](\<close> and a URL with its closing parenthesis follow.
\<close>

fun lazy_alt :: "jsstring \<Rightarrow> (jsstring \<times> jsstring) option" where
  "lazy_alt [] = None"
| "lazy_alt (c # cs) =
     (case (case strip_prefix (js '']('') (c # cs) of None \<Rightarrow> None | Some s' \<Rightarrow> match_url s') of
        Some r \<Rightarrow> Some r
      | None \<Rightarrow> if is_line_terminator c then None else lazy_alt cs)"

definition match_inline :: "jsstring \<Rightarrow> (jsstring \<times> jsstring) option" where
  "match_inline s =
     (case strip_prefix (js ''!['') s of None \<Rightarrow> None | Some s' \<Rightarrow> lazy_alt s')"

lemma match_inline_shorter:
  assumes "match_inline s = Some (u, rest)"
  shows "length rest < length s"
proof -
  have url: "length r < length t" if "match_url t = Some (v, r)" for t v r
  proof -
    from that obtain n where d: "dropWhile url_char (drop n t) = 0x29 # r"
      by (auto simp: match_url_def strip_prefix_def split: option.splits if_splits list.splits)
    have "length (dropWhile url_char (drop n t)) \<le> length (drop n t)"
      by (rule length_dropWhile_le)
    with d show ?thesis by simp
  qed
  have lazy: "lazy_alt t = Some (v, r) \<Longrightarrow> length r < length t" for t v r
  proof (induction t)
    case Nil
    then show ?case by simp
  next
    case (Cons c cs)
    show ?case
    proof (cases "case strip_prefix (js '']('') (c # cs) of None \<Rightarrow> None | Some s' \<Rightarrow> match_url s'")
      case None
      with Cons.prems have "lazy_alt cs = Some (v, r)" by (simp split: if_splits)
      then have "length r < length cs" by (rule Cons.IH)
      then show ?thesis by simp
    next
      case (Some x)
      with Cons.prems have x: "x = (v, r)" by simp
      from Some obtain s' where s': "strip_prefix (js '']('') (c # cs) = Some s'"
        and m: "match_url s' = Some x" by (auto split: option.splits)
      from s' have "length s' \<le> length (c # cs)"
        by (auto simp: strip_prefix_def split: if_splits)
      with url [of s' v r] m x show ?thesis by simp
    qed
  qed
  from assms obtain s' where s': "strip_prefix (js ''!['') s = Some s'"
    and l: "lazy_alt s' = Some (u, rest)"
    by (auto simp: match_inline_def split: option.splits)
  from s' have "length s' \<le> length s" by (auto simp: strip_prefix_def split: if_splits)
  with lazy [OF l] show ?thesis by simp
qed

text \<open>The \<open>exec\<close> loop of a global expression: the first group of every match.\<close>

function exec_all :: "jsstring \<Rightarrow> jsstring list" where
  "exec_all [] = []"
| "exec_all (c # cs) =
     (case match_inline (c # cs) of
        None \<Rightarrow> exec_all cs
      | Some (u, rest) \<Rightarrow> u # exec_all rest)"
  by pat_completeness auto
termination
  by (relation "measure length") (auto dest: match_inline_shorter)

text \<open>\<open>Array.from(new Set(urls))\<close>: a set keeps the first insertion of a value.\<close>

definition unique :: "'a list \<Rightarrow> 'a list" where
  "unique xs = fold (\<lambda>x acc. if x \<in> set acc then acc else acc @ [x]) xs []"

definition extractInlineImageUrls :: "jsstring \<Rightarrow> jsstring list" where
  "extractInlineImageUrls markdown =
     unique (filter (\<lambda>u. strip_prefix (js ''data:'') u = None) (exec_all markdown))"

section \<open>Network and file system\<close>

text \<open>
  What \<open>fetch\<close> does on one call: it throws (a network error, or the abort that the
  timeout timer triggers), with the error's message, or it resolves to a response with a
  status, a status text and a body, which is read to a buffer or fails with a message.
  The network is a function from the number of requests made before and the URL
  requested to the outcome. The world records, in the order in which they happen, the
  requests made and the delays awaited (in milliseconds, as handed to \<open>setTimeout\<close>),
  and holds the files and directories on disk; \<open>mkdirSync\<close> and \<open>writeFileSync\<close> are
  taken to succeed.
\<close>

datatype body = BodyError jsstring | Body bytes

datatype fetch_outcome = Rejected jsstring | Response nat jsstring body

type_synonym network = "nat \<Rightarrow> jsstring \<Rightarrow> fetch_outcome"

datatype fs_node = Directory | File bytes

datatype event = Fetch jsstring | Sleep nat

record world =
  fs :: "jsstring \<rightharpoonup> fs_node"
  events :: "event list"

fun fetched :: "event list \<Rightarrow> jsstring list" where
  "fetched [] = []"
| "fetched (Fetch u # es) = u # fetched es"
| "fetched (Sleep ms # es) = fetched es"

definition requests :: "world \<Rightarrow> jsstring list" where
  "requests w = fetched (events w)"

definition existsSync :: "world \<Rightarrow> jsstring \<Rightarrow> bool" where
  "existsSync w p \<longleftrightarrow> fs w p \<noteq> None"

text \<open>
  \<open>fs.mkdirSync(p, { recursive: true })\<close>: the directories above the path that are
  missing are created, then the directory itself; what exists is left as it is.
\<close>

definition make_directory :: "jsstring \<Rightarrow> (jsstring \<rightharpoonup> fs_node) \<Rightarrow> (jsstring \<rightharpoonup> fs_node)" where
  "make_directory d files = (if files d = None then files(d \<mapsto> Directory) else files)"

definition mkdirSync :: "platform \<Rightarrow> world \<Rightarrow> jsstring \<Rightarrow> world" where
  "mkdirSync pf w p = w\<lparr>fs := fold make_directory (path_parents pf p @ [p]) (fs w)\<rparr>"

definition writeFileSync :: "world \<Rightarrow> jsstring \<Rightarrow> bytes \<Rightarrow> world" where
  "writeFileSync w p content = w\<lparr>fs := (fs w)(p \<mapsto> File content)\<rparr>"

section \<open>Image downloader (lib/image-downloader.ts)\<close>

datatype image_type = Cover | Inline

text \<open>
  The part of the \<open>try\<close> block that talks to the network: the buffer, or the message
  of the error thrown. \<open>response.ok\<close> holds for the statuses 200 to 299.
\<close>

definition fetch_result :: "fetch_outcome \<Rightarrow> jsstring + bytes" where
  "fetch_result outcome =
     (case outcome of
        Rejected msg \<Rightarrow> Inl msg
      | Response st statusText b \<Rightarrow>
          if \<not> (200 \<le> st \<and> st \<le> 299)
          then Inl (js ''HTTP '' @ show_nat st @ js '': '' @ statusText)
          else (case b of
                  BodyError msg \<Rightarrow> Inl msg
                | Body buffer \<Rightarrow>
                    if buffer = [] then Inl (js ''Empty response body'') else Inr buffer))"

definition fetch_image :: "network \<Rightarrow> jsstring \<Rightarrow> world \<Rightarrow> (jsstring + bytes) \<times> world" where
  "fetch_image net u w =
     (fetch_result (net (length (requests w)) u), w\<lparr>events := events w @ [Fetch u]\<rparr>)"

text \<open>The rest of the \<open>try\<close> block: the buffer is named and written; the relative path.\<close>

definition save_image ::
  "platform \<Rightarrow> jsstring \<Rightarrow> jsstring \<Rightarrow> image_type \<Rightarrow> jsstring \<Rightarrow> bytes \<Rightarrow> world
     \<Rightarrow> jsstring \<times> world" where
  "save_image pf postSlug u ty imagesDir buffer w =
     (let postDir = createSafePath pf [imagesDir, postSlug];
          w1 = (if \<not> existsSync w postDir then mkdirSync pf w postDir else w);
          hash = generateImageHash pf u (Some buffer);
          extension = getFileExtensionFromUrl pf u;
          prefix = (if ty = Cover then js ''cover'' else js ''image'');
          filename = prefix @ js ''-'' @ hash @ extension;
          localPath = createSafePath pf [postDir, filename];
          w2 = writeFileSync w1 localPath buffer;
          relativePath = js ''images/'' @ postSlug @ js ''/'' @ filename
      in (relativePath, w2))"

text \<open>
  The retry loop of \<open>downloadSingleImage\<close>, from a given attempt on: a success returns
  from inside the loop; a failure keeps the message and, unless the attempt was the
  last, awaits \<open>Math.pow(2, attempt) * 1000\<close> milliseconds.
\<close>

function download_attempts ::
  "platform \<Rightarrow> network \<Rightarrow> ExportOptions \<Rightarrow> jsstring \<Rightarrow> jsstring \<Rightarrow> image_type \<Rightarrow> jsstring
     \<Rightarrow> ImageDownloadResult \<Rightarrow> nat \<Rightarrow> jsstring \<Rightarrow> world \<Rightarrow> ImageDownloadResult \<times> world" where
  "download_attempts pf net opts postSlug u ty imagesDir result attempt lastError w =
     (if attempt \<le> retry opts then
        (case fetch_image net u w of
           (Inr buffer, w') \<Rightarrow>
             (case save_image pf postSlug u ty imagesDir buffer w' of
                (relativePath, w'') \<Rightarrow>
                  (result\<lparr>success := True, localPath := Some relativePath\<rparr>, w''))
         | (Inl msg, w') \<Rightarrow>
             download_attempts pf net opts postSlug u ty imagesDir result (attempt + 1) msg
               (if attempt = retry opts then w'
                else w'\<lparr>events := events w' @ [Sleep (2 ^ attempt * 1000)]\<rparr>))
      else (result\<lparr>error := Some lastError\<rparr>, w))"
  by pat_completeness auto
termination
  by (relation "measure (\<lambda>(pf, net, opts, postSlug, u, ty, imagesDir, result, attempt, lastError, w).
        Suc (retry opts) - attempt)") auto

declare download_attempts.simps [simp del]

definition downloadSingleImage ::
  "platform \<Rightarrow> network \<Rightarrow> ExportOptions \<Rightarrow> jsstring \<Rightarrow> jsstring \<Rightarrow> jsstring \<Rightarrow> image_type
     \<Rightarrow> jsstring \<Rightarrow> world \<Rightarrow> ImageDownloadResult \<times> world" where
  "downloadSingleImage pf net opts pId postSlug u ty imagesDir w =
     download_attempts pf net opts postSlug u ty imagesDir
       \<lparr>postId = pId, originalUrl = u, localPath = None, success = False, error = None\<rparr>
       1 [] w"

record image_download =
  dl_postId :: jsstring
  dl_postSlug :: jsstring
  dl_url :: jsstring
  dl_type :: image_type

text \<open>The entries that one post adds to \<open>imageDownloads\<close>: the cover, then the inline images.\<close>

definition post_downloads :: "platform \<Rightarrow> WixBlogPost \<Rightarrow> image_download list" where
  "post_downloads pf post =
     (let postSlug = sanitizeFilename pf (or_else (Some (slug post)) (pid post))
      in (case cover_image post of
            None \<Rightarrow> []
          | Some img \<Rightarrow>
              if image_url img \<noteq> [] \<and> isValidImageUrl pf (image_url img)
              then [\<lparr>dl_postId = pid post, dl_postSlug = postSlug, dl_url = image_url img,
                      dl_type = Cover\<rparr>]
              else [])
         @ (if truthy (contentText post)
            then map (\<lambda>u. \<lparr>dl_postId = pid post, dl_postSlug = postSlug, dl_url = u,
                             dl_type = Inline\<rparr>)
                   (filter (isValidImageUrl pf) (extractInlineImageUrls (the (contentText post))))
            else []))"

text \<open>
  The downloads are run here one after the other, in the order of \<open>imageDownloads\<close>:
  the schedule of a limiter of concurrency 1. The limiter itself is not modelled. Under
  any schedule \<open>Promise.allSettled\<close> returns the results in that order, and no promise is
  rejected, since \<open>downloadSingleImage\<close> catches what its attempts throw.
\<close>

fun run_downloads ::
  "platform \<Rightarrow> network \<Rightarrow> ExportOptions \<Rightarrow> jsstring \<Rightarrow> image_download list \<Rightarrow> world
     \<Rightarrow> ImageDownloadResult list \<times> world" where
  "run_downloads pf net opts imagesDir [] w = ([], w)"
| "run_downloads pf net opts imagesDir (d # ds) w =
     (case downloadSingleImage pf net opts (dl_postId d) (dl_postSlug d) (dl_url d) (dl_type d)
             imagesDir w of
        (r, w') \<Rightarrow>
          (case run_downloads pf net opts imagesDir ds w' of (rs, w'') \<Rightarrow> (r # rs, w'')))"

text \<open>The downloader object: its options and its ledger of results.\<close>

record ImageDownloader =
  options :: ExportOptions
  downloadResults :: "ImageDownloadResult list"

definition new_ImageDownloader :: "ExportOptions \<Rightarrow> ImageDownloader" where
  "new_ImageDownloader opts = \<lparr>options = opts, downloadResults = []\<rparr>"

definition getDownloadResults :: "ImageDownloader \<Rightarrow> ImageDownloadResult list" where
  "getDownloadResults this = downloadResults this"

text \<open>
  In the source \<open>failed\<close> is the difference \<open>attempted - successful\<close> of two array
  lengths; the subtraction below is on naturals and never truncates, since a filtered
  list is no longer than the list.
\<close>

definition getDownloadStats :: "ImageDownloader \<Rightarrow> image_stats" where
  "getDownloadStats this =
     (let attempted = length (downloadResults this);
          successful = length (filter (\<lambda>r. success r) (downloadResults this));
          failed = attempted - successful
      in \<lparr> attempted = attempted, downloaded = successful, failed = failed \<rparr>)"

definition downloadAllImages ::
  "platform \<Rightarrow> network \<Rightarrow> ImageDownloader \<Rightarrow> WixBlogPost list \<Rightarrow> jsstring \<Rightarrow> world
     \<Rightarrow> (jsstring \<rightharpoonup> jsstring) \<times> ImageDownloader \<times> world" where
  "downloadAllImages pf net this posts outDir w =
     (if \<not> downloadImages (options this) \<or> dryRun (options this) then (Map.empty, this, w)
      else
        (let imagesDir = createSafePath pf [outDir, js ''images''];
             w1 = (if \<not> existsSync w imagesDir then mkdirSync pf w imagesDir else w);
             imageDownloads = concat (map (post_downloads pf) posts)
         in if imageDownloads = [] then (Map.empty, this, w1)
            else
              (case run_downloads pf net (options this) imagesDir imageDownloads w1 of
                 (results, w2) \<Rightarrow>
                   (fold (\<lambda>r m. if success r \<and> truthy (localPath r)
                                 then m(originalUrl r \<mapsto> the (localPath r)) else m)
                      results Map.empty,
                    this\<lparr>downloadResults := downloadResults this @ results\<rparr>,
                    w2))))"

section \<open>JSON texts (the runtime's JSON.stringify and JSON.parse)\<close>

text \<open>
  \<open>JSON.stringify(value, null, 2)\<close> as ECMA-262 specifies it, on the values above.
  \<open>QuoteJSONString\<close> goes through the code points of a string: a surrogate pair is
  copied, the characters with a short escape get it, the other control characters and a
  surrogate that stands alone become \<open>\uXXXX\<close> with lower-case digits, and every other
  code unit is copied.
\<close>

definition hex_digit :: "nat \<Rightarrow> jschar" where
  "hex_digit n = (if n < 10 then 0x30 + n else 0x57 + n)"

definition UnicodeEscape :: "jschar \<Rightarrow> jsstring" where
  "UnicodeEscape c =
     [0x5C, 0x75, hex_digit (c div 4096 mod 16), hex_digit (c div 256 mod 16),
      hex_digit (c div 16 mod 16), hex_digit (c mod 16)]"

definition leading_surrogate :: "jschar \<Rightarrow> bool" where
  "leading_surrogate c \<longleftrightarrow> 0xD800 \<le> c \<and> c \<le> 0xDBFF"

definition trailing_surrogate :: "jschar \<Rightarrow> bool" where
  "trailing_surrogate c \<longleftrightarrow> 0xDC00 \<le> c \<and> c \<le> 0xDFFF"

definition quote_unit :: "jschar \<Rightarrow> jsstring" where
  "quote_unit c =
     (if c = 0x08 then [0x5C, 0x62]
      else if c = 0x09 then [0x5C, 0x74]
      else if c = 0x0A then [0x5C, 0x6E]
      else if c = 0x0C then [0x5C, 0x66]
      else if c = 0x0D then [0x5C, 0x72]
      else if c = 0x22 then [0x5C, 0x22]
      else if c = 0x5C then [0x5C, 0x5C]
      else if c < 0x20 \<or> leading_surrogate c \<or> trailing_surrogate c then UnicodeEscape c
      else [c])"

fun quote_units :: "jsstring \<Rightarrow> jsstring" where
  "quote_units [] = []"
| "quote_units [c] = quote_unit c"
| "quote_units (c # d # s) =
     (if leading_surrogate c \<and> trailing_surrogate d then c # d # quote_units s
      else quote_unit c @ quote_units (d # s))"

definition QuoteJSONString :: "jsstring \<Rightarrow> jsstring" where
  "QuoteJSONString s = [0x22] @ quote_units s @ [0x22]"

text \<open>
  The gap of the space argument 2. \<open>SerializeJSONProperty\<close> takes the current
  indentation; a number that is not finite is written \<open>null\<close>; an empty array or object
  is written without a line break, and the elements of another one stand on lines of
  their own, indented by one more gap, a property as its quoted key, a colon, a space
  and its value.
\<close>

definition gap :: jsstring where
  "gap = js ''  ''"

fun SerializeJSONProperty :: "platform \<Rightarrow> jsstring \<Rightarrow> jsvalue \<Rightarrow> jsstring" where
  "SerializeJSONProperty pf indent Null = js ''null''"
| "SerializeJSONProperty pf indent (Boolean b) = (if b then js ''true'' else js ''false'')"
| "SerializeJSONProperty pf indent (Number n) =
     (if isFinite n then number_toString pf n else js ''null'')"
| "SerializeJSONProperty pf indent (String s) = QuoteJSONString s"
| "SerializeJSONProperty pf indent (Array vs) =
     (if vs = [] then js ''[]''
      else js ''['' @ [0x0A] @ indent @ gap
           @ join (js '','' @ [0x0A] @ indent @ gap)
               (map (SerializeJSONProperty pf (indent @ gap)) vs)
           @ [0x0A] @ indent @ js '']'')"
| "SerializeJSONProperty pf indent (Object ms) =
     (if ms = [] then js ''{}''
      else js ''{'' @ [0x0A] @ indent @ gap
           @ join (js '','' @ [0x0A] @ indent @ gap)
               (map (\<lambda>(k, v). QuoteJSONString k @ js '': ''
                                @ SerializeJSONProperty pf (indent @ gap) v) ms)
           @ [0x0A] @ indent @ js ''}'')"

definition JSON_stringify :: "platform \<Rightarrow> jsvalue \<Rightarrow> jsstring" where
  "JSON_stringify pf v = SerializeJSONProperty pf [] v"

text \<open>
  \<open>JSON.parse(text)\<close>, the grammar of ECMA-404: white space is tab, line feed, carriage
  return and space; a number is an optional minus, an integer part without a leading
  zero, an optional fraction and an optional exponent.
\<close>

definition is_json_ws :: "jschar \<Rightarrow> bool" where
  "is_json_ws c \<longleftrightarrow> c = 0x09 \<or> c = 0x0A \<or> c = 0x0D \<or> c = 0x20"

definition is_digit :: "jschar \<Rightarrow> bool" where
  "is_digit c \<longleftrightarrow> 0x30 \<le> c \<and> c \<le> 0x39"

definition json_exponent :: "jsstring \<Rightarrow> bool" where
  "json_exponent s =
     (case s of
        [] \<Rightarrow> False
      | c # r \<Rightarrow> if c = 0x2B \<or> c = 0x2D then r \<noteq> [] \<and> list_all is_digit r
                 else list_all is_digit s)"

definition json_fraction :: "jsstring \<Rightarrow> bool" where
  "json_fraction s =
     (case s of
        [] \<Rightarrow> True
      | c # r \<Rightarrow>
          if c = 0x2E
          then takeWhile is_digit r \<noteq> []
               \<and> (case dropWhile is_digit r of
                      [] \<Rightarrow> True
                    | e # x \<Rightarrow> (e = 0x45 \<or> e = 0x65) \<and> json_exponent x)
          else (c = 0x45 \<or> c = 0x65) \<and> json_exponent r)"

definition json_unsigned :: "jsstring \<Rightarrow> bool" where
  "json_unsigned s =
     (case s of
        [] \<Rightarrow> False
      | c # r \<Rightarrow> if c = 0x30 then json_fraction r
                 else is_digit c \<and> json_fraction (dropWhile is_digit r))"

definition is_json_number :: "jsstring \<Rightarrow> bool" where
  "is_json_number s =
     (case s of [] \<Rightarrow> False | c # r \<Rightarrow> if c = 0x2D then json_unsigned r else json_unsigned s)"

text \<open>
  The characters that a number is made of. A number of the text is the longest run of
  them: when a character of the run follows a number, the text is not JSON, and none of
  them can follow another token or white space, except at the start of a number.
\<close>

definition number_char :: "jschar \<Rightarrow> bool" where
  "number_char c \<longleftrightarrow> is_digit c \<or> c = 0x2B \<or> c = 0x2D \<or> c = 0x2E \<or> c = 0x45 \<or> c = 0x65"

text \<open>
  The characters of a string after its opening quote, up to the closing one: the string
  they denote and what follows the closing quote. A control character cannot stand in a
  string; a backslash starts one of the escapes \<open>\" \\ \/ \b \f \n \r \t\<close> or \<open>\u\<close> with
  four hexadecimal digits of either case.
\<close>

definition hex_value :: "jschar \<Rightarrow> nat option" where
  "hex_value c =
     (if 0x30 \<le> c \<and> c \<le> 0x39 then Some (c - 0x30)
      else if 0x61 \<le> c \<and> c \<le> 0x66 then Some (c - 0x57)
      else if 0x41 \<le> c \<and> c \<le> 0x46 then Some (c - 0x37)
      else None)"

definition hex_number :: "nat \<Rightarrow> nat \<Rightarrow> nat \<Rightarrow> nat \<Rightarrow> jschar" where
  "hex_number a b c d = ((a * 16 + b) * 16 + c) * 16 + d"

definition escaped :: "jschar \<Rightarrow> jschar option" where
  "escaped e =
     (if e = 0x22 \<or> e = 0x5C \<or> e = 0x2F then Some e
      else if e = 0x62 then Some 0x08
      else if e = 0x66 then Some 0x0C
      else if e = 0x6E then Some 0x0A
      else if e = 0x72 then Some 0x0D
      else if e = 0x74 then Some 0x09
      else None)"

fun string_chars :: "jsstring \<Rightarrow> (jsstring \<times> jsstring) option" where
  "string_chars [] = None"
| "string_chars (c # cs) =
     (if c = 0x22 then Some ([], cs)
      else if c < 0x20 then None
      else if c = 0x5C then
        (case cs of
           [] \<Rightarrow> None
         | e # es \<Rightarrow>
             if e = 0x75 then
               (case es of
                  h1 # h2 # h3 # h4 # rest \<Rightarrow>
                    (case (hex_value h1, hex_value h2, hex_value h3, hex_value h4) of
                       (Some a, Some b, Some c', Some d) \<Rightarrow>
                         map_option (\<lambda>(s, r). (hex_number a b c' d # s, r))
                           (string_chars rest)
                     | _ \<Rightarrow> None)
                | _ \<Rightarrow> None)
             else
               (case escaped e of
                  None \<Rightarrow> None
                | Some x \<Rightarrow> map_option (\<lambda>(s, r). (x # s, r)) (string_chars es)))
      else map_option (\<lambda>(s, r). (c # s, r)) (string_chars cs))"

datatype token =
    BeginObject | EndObject | BeginArray | EndArray | NameSeparator | ValueSeparator
  | StringToken jsstring | NumberToken jsstring | TrueToken | FalseToken | NullToken

definition literal :: "jsstring \<Rightarrow> (token \<times> jsstring) option" where
  "literal s =
     (case strip_prefix (js ''true'') s of
        Some r \<Rightarrow> Some (TrueToken, r)
      | None \<Rightarrow>
          (case strip_prefix (js ''false'') s of
             Some r \<Rightarrow> Some (FalseToken, r)
           | None \<Rightarrow>
               (case strip_prefix (js ''null'') s of
                  Some r \<Rightarrow> Some (NullToken, r)
                | None \<Rightarrow> None)))"

text \<open>A string and a literal are not empty: what follows them is shorter than the input.\<close>

lemma string_chars_shorter: "string_chars s = Some (v, r) \<Longrightarrow> length r < length s"
proof (induction s arbitrary: v r rule: length_induct)
  case (1 xs)
  show ?case
  proof (cases xs)
    case Nil
    with "1.prems" show ?thesis by simp
  next
    case (Cons c cs)
    have IH: "\<And>ys v' r'. length ys < length xs \<Longrightarrow> string_chars ys = Some (v', r')
        \<Longrightarrow> length r' < length ys"
      using "1.IH" by blast
    from "1.prems" Cons show ?thesis
      by (auto split: if_splits list.splits option.splits dest!: IH [rotated])
  qed
qed

lemma strip_prefix_shorter:
  assumes "strip_prefix p s = Some r" and "p \<noteq> []"
  shows "length r < length s"
proof -
  from assms(1) have t: "take (length p) s = p" and r: "r = drop (length p) s"
    by (auto simp: strip_prefix_def split: if_splits)
  have "length (take (length p) s) = length p" by (simp only: t)
  then have "length p \<le> length s" by simp
  with assms(2) r show ?thesis by (cases p) simp_all
qed

lemma literal_shorter: "literal s = Some (t, r) \<Longrightarrow> length r < length s"
  by (auto simp: literal_def js_def split: option.splits dest!: strip_prefix_shorter)

text \<open>
  The tokens of a text, or nothing when a character cannot start a token, a string is
  not closed or a number is malformed.
\<close>

function tokens :: "jsstring \<Rightarrow> token list option" where
  "tokens [] = Some []"
| "tokens (c # cs) =
     (if is_json_ws c then tokens cs
      else if c = 0x7B then map_option (Cons BeginObject) (tokens cs)
      else if c = 0x7D then map_option (Cons EndObject) (tokens cs)
      else if c = 0x5B then map_option (Cons BeginArray) (tokens cs)
      else if c = 0x5D then map_option (Cons EndArray) (tokens cs)
      else if c = 0x3A then map_option (Cons NameSeparator) (tokens cs)
      else if c = 0x2C then map_option (Cons ValueSeparator) (tokens cs)
      else if c = 0x22 then
        (case string_chars cs of
           None \<Rightarrow> None
         | Some (s, rest) \<Rightarrow> map_option (Cons (StringToken s)) (tokens rest))
      else if c = 0x2D \<or> is_digit c then
        (if is_json_number (c # takeWhile number_char cs)
         then map_option (Cons (NumberToken (c # takeWhile number_char cs)))
                (tokens (dropWhile number_char cs))
         else None)
      else
        (case literal (c # cs) of
           None \<Rightarrow> None
         | Some (t, rest) \<Rightarrow> map_option (Cons t) (tokens rest)))"
  by pat_completeness auto
termination
  by (relation "measure length")
     (auto dest: string_chars_shorter literal_shorter simp: length_dropWhile_le less_Suc_eq_le)

text \<open>
  The parser reads the tokens from the left. It knows what may come next and keeps the
  arrays and objects that are open, each with the elements or properties read so far; a
  property is defined when its value is complete, so that of two properties with the
  same key the later value stands at the place of the first. The properties of the
  object that is returned are listed in the order of the text; the keys that are array
  indices, which the runtime enumerates first, are not treated apart.
\<close>

datatype frame =
    ArrayFrame "jsvalue list"
  | ObjectFrame "(jsstring \<times> jsvalue) list"
  | MemberFrame "(jsstring \<times> jsvalue) list" jsstring

datatype expecting = Value | ValueOrEnd | NameOrEnd | Name | Colon | Complete jsvalue

type_synonym parser = "expecting \<times> frame list"

fun begin_value :: "platform \<Rightarrow> frame list \<Rightarrow> token \<Rightarrow> parser option" where
  "begin_value pf stack (StringToken s) = Some (Complete (String s), stack)"
| "begin_value pf stack (NumberToken n) = Some (Complete (Number (string_toNumber pf n)), stack)"
| "begin_value pf stack TrueToken = Some (Complete (Boolean True), stack)"
| "begin_value pf stack FalseToken = Some (Complete (Boolean False), stack)"
| "begin_value pf stack NullToken = Some (Complete Null, stack)"
| "begin_value pf stack BeginArray = Some (ValueOrEnd, ArrayFrame [] # stack)"
| "begin_value pf stack BeginObject = Some (NameOrEnd, ObjectFrame [] # stack)"
| "begin_value pf stack t = None"

fun begin_member :: "frame list \<Rightarrow> token \<Rightarrow> parser option" where
  "begin_member (ObjectFrame ms # stack) (StringToken k) = Some (Colon, MemberFrame ms k # stack)"
| "begin_member stack t = None"

fun end_value :: "jsvalue \<Rightarrow> frame list \<Rightarrow> token \<Rightarrow> parser option" where
  "end_value v (ArrayFrame vs # stack) ValueSeparator = Some (Value, ArrayFrame (vs @ [v]) # stack)"
| "end_value v (ArrayFrame vs # stack) EndArray = Some (Complete (Array (vs @ [v])), stack)"
| "end_value v (MemberFrame ms k # stack) ValueSeparator =
     Some (Name, ObjectFrame (Map_set ms k v) # stack)"
| "end_value v (MemberFrame ms k # stack) EndObject =
     Some (Complete (Object (Map_set ms k v)), stack)"
| "end_value v stack t = None"

fun step :: "platform \<Rightarrow> parser \<Rightarrow> token \<Rightarrow> parser option" where
  "step pf (Value, stack) t = begin_value pf stack t"
| "step pf (ValueOrEnd, ArrayFrame vs # stack) EndArray = Some (Complete (Array vs), stack)"
| "step pf (ValueOrEnd, stack) t = begin_value pf stack t"
| "step pf (NameOrEnd, ObjectFrame ms # stack) EndObject = Some (Complete (Object ms), stack)"
| "step pf (NameOrEnd, stack) t = begin_member stack t"
| "step pf (Name, stack) t = begin_member stack t"
| "step pf (Colon, stack) t = (if t = NameSeparator then Some (Value, stack) else None)"
| "step pf (Complete v, stack) t = end_value v stack t"

fun run :: "platform \<Rightarrow> parser \<Rightarrow> token list \<Rightarrow> parser option" where
  "run pf p [] = Some p"
| "run pf p (t # ts) = (case step pf p t of None \<Rightarrow> None | Some p' \<Rightarrow> run pf p' ts)"

text \<open>The value of a text, or nothing when \<open>JSON.parse\<close> throws a \<open>SyntaxError\<close>.\<close>

definition JSON_parse :: "platform \<Rightarrow> jsstring \<Rightarrow> jsvalue option" where
  "JSON_parse pf text =
     (case tokens text of
        None \<Rightarrow> None
      | Some ts \<Rightarrow>
          (case run pf (Value, []) ts of
             Some (Complete v, []) \<Rightarrow> Some v
           | _ \<Rightarrow> None))"

section \<open>Exporter (lib/exporters.ts)\<close>

text \<open>
  A post as the value it is in memory: the properties in the order of the interface,
  those left out whose field is absent.
\<close>

fun present :: "(jsstring \<times> jsvalue option) list \<Rightarrow> (jsstring \<times> jsvalue) list" where
  "present [] = []"
| "present ((k, None) # ps) = present ps"
| "present ((k, Some x) # ps) = (k, x) # present ps"






record categorized =
  publishedPosts :: "WixBlogPost list"
  drafts :: "WixBlogPost list"
  scheduledPosts :: "WixBlogPost list"

definition categorizePosts :: "WixBlogPost list \<Rightarrow> categorized" where
  "categorizePosts posts =
     \<lparr> publishedPosts =
         filter (\<lambda>p. status p = Some (js ''PUBLISHED'') \<or> \<not> truthy (status p)) posts,
       drafts = filter (\<lambda>p. status p = Some (js ''DRAFT'')) posts,
       scheduledPosts = filter (\<lambda>p. status p = Some (js ''SCHEDULED'')) posts \<rparr>"

text \<open>The template \<open>`"${x}"`\<close>.\<close>

definition quoted :: "jsstring \<Rightarrow> jsstring" where
  "quoted x = js [CHR 0x22] @ x @ js [CHR 0x22]"

definition csv_headers :: "ExportOptions \<Rightarrow> jsstring list" where
  "csv_headers opts =
     [js ''id'', js ''slug'', js ''title'', js ''status'', js ''firstPublishedDate'',
      js ''lastPublishedDate'', js ''featured'', js ''url'', js ''tags'', js ''categoryIds'',
      js ''readingTime'', js ''coverImageUrl'', js ''coverImageLocalPath'',
      js ''contentLength'', js ''excerptLength'']
     @ (if includeContent opts then [js ''content''] else [])"

definition csv_row :: "platform \<Rightarrow> ExportOptions \<Rightarrow> WixBlogPost \<Rightarrow> jsstring list" where
  "csv_row pf opts post =
     [quoted (pid post),
      quoted (slug post),
      quoted (replace_char 0x22 (js [CHR 0x22, CHR 0x22]) (title post)),
      quoted (or_else (status post) (js ''PUBLISHED'')),
      quoted (firstPublishedDate post),
      quoted (lastPublishedDate post),
      quoted (if featured post then js ''true'' else js ''false''),
      quoted (or_else (url post) []),
      quoted (or_else (map_option (join (js ''|'')) (hashtags post)) []),
      quoted (or_else (map_option (join (js ''|'')) (categoryIds post)) []),
      quoted (number_toString pf (minutesToRead post)),
      quoted (or_else (map_option image_url (cover_image post)) []),
      quoted (or_else (coverImageLocalPath post) []),
      quoted (show_nat (case contentText post of None \<Rightarrow> 0 | Some c \<Rightarrow> length c)),
      quoted (show_nat (case excerpt post of None \<Rightarrow> 0 | Some e \<Rightarrow> length e))]
     @ (if includeContent opts
        then [quoted (replace_char 0x0A (js [CHR 0x5C, CHR ''n''])
                (replace_char 0x22 (js [CHR 0x22, CHR 0x22]) (or_else (contentText post) [])))]
        else [])"

text \<open>The text that \<open>exportCSV\<close> hands to \<open>fs.writeFileSync\<close>.\<close>

definition exportCSV :: "platform \<Rightarrow> ExportOptions \<Rightarrow> WixBlogPost list \<Rightarrow> jsstring" where
  "exportCSV pf opts posts =
     fold (\<lambda>post csv. csv @ join (js '','') (csv_row pf opts post) @ js [CHR 0x0A]) posts
       (join (js '','') (csv_headers opts) @ js [CHR 0x0A])"

section \<open>Summary report (ReportGenerator.generateSummaryReport)\<close>

text \<open>\<open>tagCounts.set(tag, (tagCounts.get(tag) || 0) + 1)\<close>\<close>

definition count_tag :: "(jsstring \<times> nat) list \<Rightarrow> jsstring \<Rightarrow> (jsstring \<times> nat) list" where
  "count_tag m t = Map_set m t ((case Map_get m t of None \<Rightarrow> 0 | Some c \<Rightarrow> c) + 1)"

text \<open>\<open>post.hashtags?.forEach(...)\<close>: a post without the field contributes nothing.\<close>

definition post_tags :: "WixBlogPost \<Rightarrow> jsstring list" where
  "post_tags p = (case hashtags p of None \<Rightarrow> [] | Some ts \<Rightarrow> ts)"

definition tagCounts :: "WixBlogPost list \<Rightarrow> (jsstring \<times> nat) list" where
  "tagCounts posts = fold (\<lambda>p m. fold (\<lambda>t m'. count_tag m' t) (post_tags p) m) posts []"

text \<open>
  \<open>Array.prototype.sort\<close> with a comparator is a stable sort: elements that compare
  equal keep their order. Insertion from the right, an element going in front of the
  first one it does not compare greater than, is such a sort.
\<close>

fun insert_by :: "('a \<Rightarrow> 'a \<Rightarrow> int) \<Rightarrow> 'a \<Rightarrow> 'a list \<Rightarrow> 'a list" where
  "insert_by cmp x [] = [x]"
| "insert_by cmp x (y # ys) =
     (if cmp x y \<le> 0 then x # y # ys else y # insert_by cmp x ys)"

definition sort_by :: "('a \<Rightarrow> 'a \<Rightarrow> int) \<Rightarrow> 'a list \<Rightarrow> 'a list" where
  "sort_by cmp xs = foldr (insert_by cmp) xs []"

text \<open>
  The report without \<open>generatedAt\<close> (the clock) and \<open>byYear\<close> (the years that \<open>Date\<close>
  reads from the publication dates in the local time zone).
\<close>

definition generateSummaryReport ::
  "WixBlogPost list \<Rightarrow> jsstring \<Rightarrow> ImageDownloadResult list \<Rightarrow> SummaryReport" where
  "generateSummaryReport posts cust imageResults =
     \<lparr> customer = cust,
       counts =
         \<lparr> total = length posts,
           published =
             length (filter (\<lambda>p. status p = Some (js ''PUBLISHED'') \<or> \<not> truthy (status p)) posts),
           draft = length (filter (\<lambda>p. status p = Some (js ''DRAFT'')) posts),
           scheduled = length (filter (\<lambda>p. status p = Some (js ''SCHEDULED'')) posts) \<rparr>,
       images =
         \<lparr> attempted = length imageResults,
           downloaded = length (filter (\<lambda>r. success r) imageResults),
           failed = length (filter (\<lambda>r. \<not> success r) imageResults) \<rparr>,
       tagsTop10 =
         map (\<lambda>(t, c). \<lparr> tag = t, count = c \<rparr>)
           (take 10 (sort_by (\<lambda>a b. int (snd b) - int (snd a)) (tagCounts posts))),
       failures =
         map (\<lambda>r. \<lparr> failure_postId = postId r, failure_url = originalUrl r,
                     failure_error = or_else (error r) (js ''Unknown error'') \<rparr>)
           (filter (\<lambda>r. \<not> success r) imageResults) \<rparr>"

section \<open>Vocabulary of the properties\<close>

text \<open>The tags of a collection in the order the report scans them.\<close>

definition all_tags :: "WixBlogPost list \<Rightarrow> jsstring list" where
  "all_tags posts = concat (map post_tags posts)"

text \<open>The position at which a value is first encountered in a list.\<close>

definition first_index :: "'a list \<Rightarrow> 'a \<Rightarrow> nat" where
  "first_index xs x = length (takeWhile (\<lambda>y. y \<noteq> x) xs)"

text \<open>
  One entry ranks before another when its count is larger, or the counts are equal and
  its tag was encountered first.
\<close>

definition ranks_before :: "jsstring list \<Rightarrow> tag_count \<Rightarrow> tag_count \<Rightarrow> bool" where
  "ranks_before ts a b \<longleftrightarrow>
     count b < count a
     \<or> (count a = count b \<and> first_index ts (tag a) < first_index ts (tag b))"

text \<open>Reading a quoted CSV field back: a doubled quote stands for one quote.\<close>

fun undouble :: "jsstring \<Rightarrow> jsstring" where
  "undouble (a # b # s) = (if a = 0x22 \<and> b = 0x22 then a # undouble s else a # undouble (b # s))"
| "undouble s = s"



text \<open>
  The name of one file in a directory: not empty, neither \<open>.\<close> nor \<open>..\<close>, and without a
  path separator. The digits of a hexadecimal digest.
\<close>

definition plain_name :: "jsstring \<Rightarrow> bool" where
  "plain_name f \<longleftrightarrow> f \<noteq> [] \<and> f \<noteq> js ''.'' \<and> f \<noteq> js ''..'' \<and> 0x2F \<notin> set f \<and> 0x5C \<notin> set f"

definition hex_char :: "jschar \<Rightarrow> bool" where
  "hex_char c \<longleftrightarrow> (0x30 \<le> c \<and> c \<le> 0x39) \<or> (0x61 \<le> c \<and> c \<le> 0x66)"

text \<open>
  The tokens of the text that \<open>JSON.stringify\<close> writes for a value, and the value that
  is read back from them: a number that is not finite has become \<open>null\<close>, a finite one
  is the number its rendering denotes.
\<close>

fun separated :: "'a \<Rightarrow> 'a list list \<Rightarrow> 'a list" where
  "separated sep [] = []"
| "separated sep [x] = x"
| "separated sep (x # y # ys) = x @ sep # separated sep (y # ys)"

fun value_tokens :: "platform \<Rightarrow> jsvalue \<Rightarrow> token list" where
  "value_tokens pf Null = [NullToken]"
| "value_tokens pf (Boolean b) = [if b then TrueToken else FalseToken]"
| "value_tokens pf (Number n) =
     [if isFinite n then NumberToken (number_toString pf n) else NullToken]"
| "value_tokens pf (String s) = [StringToken s]"
| "value_tokens pf (Array vs) =
     BeginArray # separated ValueSeparator (map (value_tokens pf) vs) @ [EndArray]"
| "value_tokens pf (Object ms) =
     BeginObject
       # separated ValueSeparator
           (map (\<lambda>(k, v). StringToken k # NameSeparator # value_tokens pf v) ms)
       @ [EndObject]"

fun read_back :: "platform \<Rightarrow> jsvalue \<Rightarrow> jsvalue" where
  "read_back pf Null = Null"
| "read_back pf (Boolean b) = Boolean b"
| "read_back pf (Number n) =
     (if isFinite n then Number (string_toNumber pf (number_toString pf n)) else Null)"
| "read_back pf (String s) = String s"
| "read_back pf (Array vs) = Array (map (read_back pf) vs)"
| "read_back pf (Object ms) = Object (map (\<lambda>(k, v). (k, read_back pf v)) ms)"

text \<open>
  A value that the runtime can write: every finite number in it is rendered as a JSON
  number, and the keys of an object are distinct, as those of an object are.
\<close>

fun printable :: "platform \<Rightarrow> jsvalue \<Rightarrow> bool" where
  "printable pf (Number n) = (\<not> isFinite n \<or> is_json_number (number_toString pf n))"
| "printable pf (Array vs) = list_all (printable pf) vs"
| "printable pf (Object ms) = (distinct (map fst ms) \<and> list_all (\<lambda>(k, v). printable pf v) ms)"
| "printable pf v = True"





text \<open>What may follow a number: nothing, or a character that is not part of a number.\<close>

definition ends_number :: "jsstring \<Rightarrow> bool" where
  "ends_number rest \<longleftrightarrow> (case rest of [] \<Rightarrow> True | c # cs \<Rightarrow> \<not> number_char c)"

section \<open>Example data\<close>

text \<open>A post with the fields of the repository's test fixture \<open>minimalPost\<close>.\<close>

definition example_post :: "string \<Rightarrow> string option \<Rightarrow> string list \<Rightarrow> WixBlogPost" where
  "example_post i st tags =
     \<lparr> pid = js i, title = js ''Minimal Post'', excerpt = Some [], contentText = None,
       url = None, firstPublishedDate = js ''2023-01-15T10:00:00Z'',
       lastPublishedDate = js ''2023-01-15T10:00:00Z'', status = map_option js st,
       slug = js i, featured = False, categoryIds = Some [], tagIds = [], relatedPostIds = [],
       membersOnly = None, hashtags = Some (map js tags), commentingEnabled = True,
       minutesToRead = Finite 1, viewCount = None, likeCount = None, language = js ''en'',
       media = None, seoData = None, localImagePaths = None, coverImageLocalPath = None \<rparr>"

text \<open>The defaults of the command line's \<open>getExportOptions\<close>, on a given output directory.\<close>

definition example_options :: "string \<Rightarrow> ExportOptions" where
  "example_options dir =
     \<lparr> format = All, includeContent = True, includeImages = True, downloadImages = False,
       outputDir = js dir, filename = Some (js ''wix-blog-export''), customer_opt = None,
       bundleTitle = None, bundleZip = False, concurrency = 4, retry = 3, timeoutMs = 20000,
       dryRun = False \<rparr>"

text \<open>
  A platform for the examples, right on their inputs: ASCII lower-casing; URLs of the
  form \<open>http(s)://host/path\<close> with an optional query or fragment; paths whose segments
  are plain names, joined with \<open>/\<close>; the extension after the last dot of the last
  segment; the directories above a path as its proper prefixes that end before a \<open>/\<close>,
  the root left out; the MD5 digests of the two buffers of the examples, \<open>hello\<close> and
  the empty one; ASCII strings as their own UTF-8 encoding; the rendering of the
  integers, of negative zero and of the numbers that are not finite, and the numbers
  that the integer literals denote.
\<close>

definition example_parse_url :: "jsstring \<Rightarrow> (jsstring \<times> jsstring) option" where
  "example_parse_url u =
     (case (case strip_prefix (js ''https://'') u of
              Some r \<Rightarrow> Some (js ''https:'', r)
            | None \<Rightarrow> map_option (Pair (js ''http:'')) (strip_prefix (js ''http://'') u)) of
        None \<Rightarrow> None
      | Some (protocol, r) \<Rightarrow>
          (let p = takeWhile (\<lambda>c. c \<noteq> 0x3F \<and> c \<noteq> 0x23) (dropWhile (\<lambda>c. c \<noteq> 0x2F) r)
           in Some (protocol, if p = [] then js ''/'' else p)))"

definition example_extname :: "jsstring \<Rightarrow> jsstring" where
  "example_extname p =
     (let base = rev (takeWhile (\<lambda>c. c \<noteq> 0x2F) (rev p))
      in if 0x2E \<in> set (tl base) then 0x2E # rev (takeWhile (\<lambda>c. c \<noteq> 0x2E) (rev base)) else [])"

fun example_prefixes :: "jsstring \<Rightarrow> jsstring \<Rightarrow> jsstring list" where
  "example_prefixes before [] = []"
| "example_prefixes before (c # cs) =
     (if c = 0x2F \<and> before \<noteq> [] then [before] else []) @ example_prefixes (before @ [c]) cs"

definition example_parents :: "jsstring \<Rightarrow> jsstring list" where
  "example_parents p = example_prefixes [] p"

definition example_number_toString :: "number \<Rightarrow> jsstring" where
  "example_number_toString n =
     (case n of
        NaN \<Rightarrow> js ''NaN''
      | PosInfinity \<Rightarrow> js ''Infinity''
      | NegInfinity \<Rightarrow> js ''-Infinity''
      | NegZero \<Rightarrow> js ''0''
      | Finite q \<Rightarrow> show_int \<lfloor>q\<rfloor>)"

definition read_digits :: "jsstring \<Rightarrow> nat" where
  "read_digits s = fold (\<lambda>c n. 10 * n + (c - 0x30)) s 0"

definition example_string_toNumber :: "jsstring \<Rightarrow> number" where
  "example_string_toNumber s =
     (case s of
        [] \<Rightarrow> NaN
      | c # r \<Rightarrow>
          if c = 0x2D
          then (if read_digits r = 0 then NegZero else Finite (- of_nat (read_digits r)))
          else Finite (of_nat (read_digits s)))"

definition example_md5_hex :: "bytes \<Rightarrow> jsstring" where
  "example_md5_hex content =
     (if content = js ''hello'' then js ''5d41402abc4b2a76b9719d911017c592''
      else js ''d41d8cd98f00b204e9800998ecf8427e'')"

definition example_platform :: platform where
  "example_platform =
     \<lparr> toLowerCase = map (\<lambda>c. if 0x41 \<le> c \<and> c \<le> 0x5A then c + 0x20 else c),
       parse_url = example_parse_url,
       path_join = join (js ''/''),
       path_normalize = (\<lambda>p. p),
       path_extname = example_extname,
       path_parents = example_parents,
       md5_hex = example_md5_hex,
       utf8 = (\<lambda>s. s),
       number_toString = example_number_toString,
       string_toNumber = example_string_toNumber \<rparr>"

text \<open>A server that answers every request with the five bytes \<open>hello\<close>, and one that fails.\<close>

definition hello_network :: network where
  "hello_network n u = Response 200 (js ''OK'') (Body (js ''hello''))"

definition failing_network :: network where
  "failing_network n u = Response 500 (js ''Internal Server Error'') (Body [])"

text \<open>
  The post of the repository's integration test, its cover image also embedded in the
  content.
\<close>

definition example_image_post :: WixBlogPost where
  "example_image_post =
     (example_post ''test-id'' (Some ''PUBLISHED'') [''test'', ''blog'', ''export''])
       \<lparr> title := js ''Test Blog Post'',
         excerpt := Some (js ''This is a test excerpt for the blog post''),
         contentText := Some (js ''Intro ![Test image](https://example.com/test-image.jpg) end''),
         slug := js ''test-blog-post'', featured := True, minutesToRead := Finite 5,
         media := Some \<lparr> wixMedia = Some \<lparr> image = Some
           \<lparr> image_url = js ''https://example.com/test-image.jpg'',
             altText = Some (js ''Test image''), image_height = Some (Finite 600),
             image_width = Some (Finite 800) \<rparr> \<rparr>, displayed = True \<rparr> \<rparr>"

definition empty_world :: world where
  "empty_world = \<lparr> fs = Map.empty, events = [] \<rparr>"

section \<open>Ledger statistics\<close>

lemma length_filter_split:
  "length (filter P xs) + length (filter (\<lambda>x. \<not> P x) xs) = length xs"
  by (induction xs) auto

text \<open>
  C10. For every state of the ledger, \<open>attempted = downloaded + failed\<close> holds both for
  \<open>getDownloadStats\<close> and for the \<open>images\<close> section of the summary report generated
  from the ledger, where \<open>downloaded\<close> is the number of entries with \<open>success = true\<close> and
  \<open>failed\<close> the number of entries with \<open>success = false\<close>; the two agree.
\<close>

theorem ledger_stats_add_up:
  "attempted (getDownloadStats this) = downloaded (getDownloadStats this) + failed (getDownloadStats this)
   \<and> attempted (getDownloadStats this) = length (getDownloadResults this)
   \<and> downloaded (getDownloadStats this) = length (filter (\<lambda>r. success r) (getDownloadResults this))
   \<and> failed (getDownloadStats this) = length (filter (\<lambda>r. \<not> success r) (getDownloadResults this))
   \<and> attempted (images (generateSummaryReport posts cust ledger)) =
       downloaded (images (generateSummaryReport posts cust ledger))
       + failed (images (generateSummaryReport posts cust ledger))
   \<and> attempted (images (generateSummaryReport posts cust ledger)) = length ledger
   \<and> downloaded (images (generateSummaryReport posts cust ledger))
       = length (filter (\<lambda>r. success r) ledger)
   \<and> failed (images (generateSummaryReport posts cust ledger))
       = length (filter (\<lambda>r. \<not> success r) ledger)
   \<and> images (generateSummaryReport posts cust (getDownloadResults this)) = getDownloadStats this"
proof -
  have split: "length (filter (\<lambda>r. success r) xs) + length (filter (\<lambda>r. \<not> success r) xs)
      = length xs" for xs :: "ImageDownloadResult list"
    by (rule length_filter_split)
  then have diff: "length xs - length (filter (\<lambda>r. success r) xs)
      = length (filter (\<lambda>r. \<not> success r) xs)" for xs :: "ImageDownloadResult list"
    by (metis add_diff_cancel_left')
  show ?thesis
    using split [of ledger] split [of "downloadResults this"]
    by (simp add: getDownloadStats_def getDownloadResults_def generateSummaryReport_def Let_def diff)
qed

theorem ledger_stats_add_up_witness:
  "getDownloadStats
      \<lparr>options = example_options ''/out'',
        downloadResults =
          [\<lparr>postId = js ''p1'', originalUrl = js ''https://example.com/a.png'',
             localPath = Some (js ''images/p1/cover-5d41402a.png''), success = True, error = None\<rparr>,
           \<lparr>postId = js ''p1'', originalUrl = js ''https://example.com/b.png'',
             localPath = None, success = False,
             error = Some (js ''HTTP 500: Internal Server Error'')\<rparr>]\<rparr>
     = \<lparr>attempted = 2, downloaded = 1, failed = 1\<rparr>
   \<and> images (generateSummaryReport [] (js ''acme'')
          [\<lparr>postId = js ''p1'', originalUrl = js ''https://example.com/a.png'',
             localPath = Some (js ''images/p1/cover-5d41402a.png''), success = True, error = None\<rparr>,
           \<lparr>postId = js ''p1'', originalUrl = js ''https://example.com/b.png'',
             localPath = None, success = False,
             error = Some (js ''HTTP 500: Internal Server Error'')\<rparr>])
     = \<lparr>attempted = 2, downloaded = 1, failed = 1\<rparr>"
proof -
  let ?ledger = "[\<lparr>postId = js ''p1'', originalUrl = js ''https://example.com/a.png'',
             localPath = Some (js ''images/p1/cover-5d41402a.png''), success = True, error = None\<rparr>,
           \<lparr>postId = js ''p1'', originalUrl = js ''https://example.com/b.png'',
             localPath = None, success = False,
             error = Some (js ''HTTP 500: Internal Server Error'')\<rparr>]"
  let ?dl = "\<lparr>options = example_options ''/out'', downloadResults = ?ledger\<rparr>"
  note E = ledger_stats_add_up [of ?dl "[]" "js ''acme''" ?ledger]
  have r: "getDownloadResults ?dl = ?ledger" by (simp add: getDownloadResults_def)
  have a: "attempted (getDownloadStats ?dl) = 2"
    using E [THEN conjunct2, THEN conjunct1] r by simp
  have d: "downloaded (getDownloadStats ?dl) = 1"
    using E [THEN conjunct2, THEN conjunct2, THEN conjunct1] r by simp
  have f: "failed (getDownloadStats ?dl) = 1"
    using E [THEN conjunct2, THEN conjunct2, THEN conjunct2, THEN conjunct1] r by simp
  have s: "getDownloadStats ?dl = \<lparr>attempted = 2, downloaded = 1, failed = 1\<rparr>"
    using a d f by (cases "getDownloadStats ?dl") simp
  have "images (generateSummaryReport [] (js ''acme'') (getDownloadResults ?dl))
      = getDownloadStats ?dl"
    using E by blast
  then show ?thesis using s r by simp
qed

section \<open>Status categorization\<close>

lemma status_literals_distinct:
  "js ''PUBLISHED'' \<noteq> js ''DRAFT''" "js ''PUBLISHED'' \<noteq> js ''SCHEDULED''"
  "js ''DRAFT'' \<noteq> js ''SCHEDULED''" "js ''PUBLISHED'' \<noteq> []"
  "js ''DRAFT'' \<noteq> []" "js ''SCHEDULED'' \<noteq> []"
  by (simp_all add: js_def)

lemma length_filter3:
  assumes "\<forall>x \<in> set xs. P x \<or> Q x \<or> R x"
    and "\<forall>x \<in> set xs. \<not> (P x \<and> Q x) \<and> \<not> (P x \<and> R x) \<and> \<not> (Q x \<and> R x)"
  shows "length (filter P xs) + length (filter Q xs) + length (filter R xs) = length xs"
  using assms by (induction xs) auto

text \<open>
  C2. The rule that a post with no status counts as Published is the same in the
  exporter's grouping and in the report's counts: each count of the report is the size
  of the exporter's group, a post is in a group exactly when it is in the collection and
  the report counts it (the report of the one-post collection counts one) under that
  status, a post without status is in the published group and counted as published, no
  post is in two groups, and when every status is PUBLISHED, DRAFT, SCHEDULED or absent
  the three groups cover the collection and their sizes add up to its length.
\<close>

theorem status_rule_uniform:
  "published (counts (generateSummaryReport posts cust ledger))
     = length (publishedPosts (categorizePosts posts))
   \<and> draft (counts (generateSummaryReport posts cust ledger))
     = length (drafts (categorizePosts posts))
   \<and> scheduled (counts (generateSummaryReport posts cust ledger))
     = length (scheduledPosts (categorizePosts posts))
   \<and> (p \<in> set (publishedPosts (categorizePosts posts))
       \<longleftrightarrow> p \<in> set posts \<and> published (counts (generateSummaryReport [p] cust ledger)) = 1)
   \<and> (p \<in> set (drafts (categorizePosts posts))
       \<longleftrightarrow> p \<in> set posts \<and> draft (counts (generateSummaryReport [p] cust ledger)) = 1)
   \<and> (p \<in> set (scheduledPosts (categorizePosts posts))
       \<longleftrightarrow> p \<in> set posts \<and> scheduled (counts (generateSummaryReport [p] cust ledger)) = 1)
   \<and> (p \<in> set posts \<and> status p = None
       \<longrightarrow> p \<in> set (publishedPosts (categorizePosts posts))
         \<and> published (counts (generateSummaryReport [p] cust ledger)) = 1)
   \<and> set (publishedPosts (categorizePosts posts)) \<inter> set (drafts (categorizePosts posts)) = {}
   \<and> set (publishedPosts (categorizePosts posts)) \<inter> set (scheduledPosts (categorizePosts posts)) = {}
   \<and> set (drafts (categorizePosts posts)) \<inter> set (scheduledPosts (categorizePosts posts)) = {}
   \<and> ((\<forall>q \<in> set posts. status q = None \<or> status q = Some (js ''PUBLISHED'')
           \<or> status q = Some (js ''DRAFT'') \<or> status q = Some (js ''SCHEDULED''))
       \<longrightarrow> set (publishedPosts (categorizePosts posts)) \<union> set (drafts (categorizePosts posts))
             \<union> set (scheduledPosts (categorizePosts posts)) = set posts
         \<and> length (publishedPosts (categorizePosts posts)) + length (drafts (categorizePosts posts))
             + length (scheduledPosts (categorizePosts posts)) = length posts
         \<and> published (counts (generateSummaryReport posts cust ledger))
             + draft (counts (generateSummaryReport posts cust ledger))
             + scheduled (counts (generateSummaryReport posts cust ledger))
             = total (counts (generateSummaryReport posts cust ledger)))"
proof -
  let ?P = "\<lambda>p. status p = Some (js ''PUBLISHED'') \<or> \<not> truthy (status p)"
  let ?D = "\<lambda>p. status p = Some (js ''DRAFT'')"
  let ?S = "\<lambda>p. status p = Some (js ''SCHEDULED'')"
  have excl: "\<not> (?P q \<and> ?D q) \<and> \<not> (?P q \<and> ?S q) \<and> \<not> (?D q \<and> ?S q)" for q
    using status_literals_distinct by auto
  have counts_eq:
    "published (counts (generateSummaryReport posts cust ledger))
       = length (publishedPosts (categorizePosts posts))"
    "draft (counts (generateSummaryReport posts cust ledger))
       = length (drafts (categorizePosts posts))"
    "scheduled (counts (generateSummaryReport posts cust ledger))
       = length (scheduledPosts (categorizePosts posts))"
    by (simp_all add: generateSummaryReport_def categorizePosts_def)
  have member:
    "p \<in> set (publishedPosts (categorizePosts posts))
       \<longleftrightarrow> p \<in> set posts \<and> published (counts (generateSummaryReport [p] cust ledger)) = 1"
    "p \<in> set (drafts (categorizePosts posts))
       \<longleftrightarrow> p \<in> set posts \<and> draft (counts (generateSummaryReport [p] cust ledger)) = 1"
    "p \<in> set (scheduledPosts (categorizePosts posts))
       \<longleftrightarrow> p \<in> set posts \<and> scheduled (counts (generateSummaryReport [p] cust ledger)) = 1"
    by (auto simp add: generateSummaryReport_def categorizePosts_def)
  have absent: "p \<in> set posts \<and> status p = None
       \<longrightarrow> p \<in> set (publishedPosts (categorizePosts posts))
         \<and> published (counts (generateSummaryReport [p] cust ledger)) = 1"
    by (simp add: generateSummaryReport_def categorizePosts_def)
  have disj:
    "set (publishedPosts (categorizePosts posts)) \<inter> set (drafts (categorizePosts posts)) = {}"
    "set (publishedPosts (categorizePosts posts)) \<inter> set (scheduledPosts (categorizePosts posts)) = {}"
    "set (drafts (categorizePosts posts)) \<inter> set (scheduledPosts (categorizePosts posts)) = {}"
    using excl by (auto simp add: categorizePosts_def)
  have part: "set (publishedPosts (categorizePosts posts)) \<union> set (drafts (categorizePosts posts))
             \<union> set (scheduledPosts (categorizePosts posts)) = set posts
         \<and> length (publishedPosts (categorizePosts posts)) + length (drafts (categorizePosts posts))
             + length (scheduledPosts (categorizePosts posts)) = length posts
         \<and> published (counts (generateSummaryReport posts cust ledger))
             + draft (counts (generateSummaryReport posts cust ledger))
             + scheduled (counts (generateSummaryReport posts cust ledger))
             = total (counts (generateSummaryReport posts cust ledger))"
    if known: "\<forall>q \<in> set posts. status q = None \<or> status q = Some (js ''PUBLISHED'')
           \<or> status q = Some (js ''DRAFT'') \<or> status q = Some (js ''SCHEDULED'')"
  proof -
    have cover: "\<forall>q \<in> set posts. ?P q \<or> ?D q \<or> ?S q"
      using known by auto
    have len: "length (filter ?P posts) + length (filter ?D posts) + length (filter ?S posts)
        = length posts"
      using cover excl by (intro length_filter3) blast+
    have un: "set (filter ?P posts) \<union> set (filter ?D posts) \<union> set (filter ?S posts) = set posts"
      using cover by auto
    show ?thesis
      using len un by (simp add: generateSummaryReport_def categorizePosts_def)
  qed
  show ?thesis
    using counts_eq member absent disj part by blast
qed

theorem status_rule_uniform_witness:
  "map status [example_post ''p1'' None [], example_post ''p2'' (Some ''PUBLISHED'') [],
        example_post ''p3'' (Some ''DRAFT'') [], example_post ''p4'' (Some ''SCHEDULED'') []]
     = [None, Some (js ''PUBLISHED''), Some (js ''DRAFT''), Some (js ''SCHEDULED'')]
   \<and> example_post ''p1'' None [] \<in> set (publishedPosts (categorizePosts
        [example_post ''p1'' None [], example_post ''p2'' (Some ''PUBLISHED'') [],
         example_post ''p3'' (Some ''DRAFT'') [], example_post ''p4'' (Some ''SCHEDULED'') []]))
   \<and> published (counts (generateSummaryReport
        [example_post ''p1'' None [], example_post ''p2'' (Some ''PUBLISHED'') [],
         example_post ''p3'' (Some ''DRAFT'') [], example_post ''p4'' (Some ''SCHEDULED'') []]
        (js ''acme'') [])) = 2
   \<and> length (publishedPosts (categorizePosts
        [example_post ''p1'' None [], example_post ''p2'' (Some ''PUBLISHED'') [],
         example_post ''p3'' (Some ''DRAFT'') [], example_post ''p4'' (Some ''SCHEDULED'') []])) = 2
   \<and> length (drafts (categorizePosts
        [example_post ''p1'' None [], example_post ''p2'' (Some ''PUBLISHED'') [],
         example_post ''p3'' (Some ''DRAFT'') [], example_post ''p4'' (Some ''SCHEDULED'') []])) = 1
   \<and> length (scheduledPosts (categorizePosts
        [example_post ''p1'' None [], example_post ''p2'' (Some ''PUBLISHED'') [],
         example_post ''p3'' (Some ''DRAFT'') [], example_post ''p4'' (Some ''SCHEDULED'') []])) = 1"
proof -
  let ?ps = "[example_post ''p1'' None [], example_post ''p2'' (Some ''PUBLISHED'') [],
         example_post ''p3'' (Some ''DRAFT'') [], example_post ''p4'' (Some ''SCHEDULED'') []]"
  have st: "status (example_post i s t) = map_option js s" for i s t
    by (simp add: example_post_def)
  have hyp: "\<forall>q \<in> set ?ps. status q = None \<or> status q = Some (js ''PUBLISHED'')
      \<or> status q = Some (js ''DRAFT'') \<or> status q = Some (js ''SCHEDULED'')"
    by (simp add: st)
  have cat: "publishedPosts (categorizePosts ?ps)
        = [example_post ''p1'' None [], example_post ''p2'' (Some ''PUBLISHED'') []]"
      "drafts (categorizePosts ?ps) = [example_post ''p3'' (Some ''DRAFT'') []]"
      "scheduledPosts (categorizePosts ?ps) = [example_post ''p4'' (Some ''SCHEDULED'') []]"
    using status_literals_distinct by (simp_all add: categorizePosts_def st)
  show ?thesis
    using status_rule_uniform [of ?ps "js ''acme''" "[]" "example_post ''p1'' None []"] hyp cat
    by (simp add: st)
qed

section \<open>Tag ranking\<close>

lemma insert_by_insort:
  "insert_by (\<lambda>a b. int (snd b) - int (snd a)) x ys = insort_key (\<lambda>p. - int (snd p)) x ys"
  by (induction ys) auto

lemma sort_by_sort_key:
  "sort_by (\<lambda>a b. int (snd b) - int (snd a)) xs = sort_key (\<lambda>p. - int (snd p)) xs"
  by (induction xs) (simp_all add: sort_by_def insert_by_insort)

lemma fold_fold_concat: "fold (\<lambda>x m. fold f (g x) m) xs m = fold f (concat (map g xs)) m"
  by (induction xs arbitrary: m) simp_all

lemma tagCounts_fold:
  "tagCounts posts = fold (\<lambda>t m. count_tag m t) (all_tags posts) []"
  by (simp add: tagCounts_def all_tags_def fold_fold_concat)

lemma Map_get_None_iff: "Map_get m k = None \<longleftrightarrow> k \<notin> fst ` set m"
  by (induction m k rule: Map_get.induct) auto

lemma Map_get_Some_iff: "distinct (map fst m) \<Longrightarrow> Map_get m k = Some v \<longleftrightarrow> (k, v) \<in> set m"
  by (induction m k rule: Map_get.induct) (auto simp: rev_image_eqI)

lemma Map_set_new: "k \<notin> fst ` set m \<Longrightarrow> Map_set m k v = m @ [(k, v)]"
  by (induction m k v rule: Map_set.induct) auto

lemma Map_set_keys: "k \<in> fst ` set m \<Longrightarrow> map fst (Map_set m k v) = map fst m"
  by (induction m k v rule: Map_set.induct) auto

lemma Map_set_set: "distinct (map fst m) \<Longrightarrow> k \<in> fst ` set m \<Longrightarrow>
   set (Map_set m k v) = {e \<in> set m. fst e \<noteq> k} \<union> {(k, v)}"
  by (induction m k v rule: Map_set.induct) (auto simp: rev_image_eqI)

lemma first_index_snoc_old: "x \<in> set xs \<Longrightarrow> first_index (xs @ [t]) x = first_index xs x"
  by (simp add: first_index_def) 

lemma first_index_less: "x \<in> set xs \<Longrightarrow> first_index xs x < length xs"
  unfolding first_index_def by (induction xs) auto

lemma first_index_snoc_new: "t \<notin> set xs \<Longrightarrow> first_index (xs @ [t]) t = length xs"
  unfolding first_index_def by (induction xs) auto


lemma count_list_snoc: "count_list (xs @ [t]) k = count_list xs k + (if t = k then 1 else 0)"
  by (induction xs) auto

lemma tag_table_inv:
  fixes ts :: "jsstring list"
  defines "R \<equiv> fold (\<lambda>t m. count_tag m t) ts []"
  shows "distinct (map fst R) \<and> set (map fst R) = set ts
     \<and> sorted_wrt (\<lambda>a b. first_index ts a < first_index ts b) (map fst R)
     \<and> (\<forall>k c. (k, c) \<in> set R \<longrightarrow> c = count_list ts k)"
  unfolding R_def
proof (induction ts rule: rev_induct)
  case Nil
  show ?case by simp
next
  case (snoc t ts)
  let ?R = "fold (\<lambda>t m. count_tag m t) ts []"
  let ?R' = "fold (\<lambda>t m. count_tag m t) (ts @ [t]) []"
  have R': "?R' = count_tag ?R t" by simp
  from snoc have dist: "distinct (map fst ?R)" and keys: "set (map fst ?R) = set ts"
    and srt: "sorted_wrt (\<lambda>a b. first_index ts a < first_index ts b) (map fst ?R)"
    and cnt: "\<And>k c. (k, c) \<in> set ?R \<Longrightarrow> c = count_list ts k"
    by blast+
  show ?case
  proof (cases "t \<in> set ts")
    case True
    then have inR: "t \<in> fst ` set ?R" using keys by simp
    then obtain c where c: "Map_get ?R t = Some c"
      using Map_get_None_iff [of ?R t] by (cases "Map_get ?R t") auto
    then have tc: "(t, c) \<in> set ?R" using Map_get_Some_iff [OF dist] by simp
    have R'eq: "?R' = Map_set ?R t (c + 1)" using c by (simp add: count_tag_def)
    have k': "map fst ?R' = map fst ?R" using inR by (simp only: R'eq Map_set_keys)
    have s': "set ?R' = {e \<in> set ?R. fst e \<noteq> t} \<union> {(t, c + 1)}"
      using dist inR by (simp only: R'eq Map_set_set)
    have "sorted_wrt (\<lambda>a b. first_index (ts @ [t]) a < first_index (ts @ [t]) b) (map fst ?R)"
      using srt keys by (rule_tac sorted_wrt_mono_rel [rotated]) (auto simp: first_index_snoc_old)
    moreover have "\<forall>k d. (k, d) \<in> set ?R' \<longrightarrow> d = count_list (ts @ [t]) k"
      unfolding s' using cnt tc by (auto simp: count_list_snoc)
    ultimately show ?thesis
      using dist keys True unfolding k' by auto
  next
    case False
    then have notin: "t \<notin> fst ` set ?R" using keys by simp
    then have none: "Map_get ?R t = None" using Map_get_None_iff by fast
    have R'eq: "?R' = ?R @ [(t, 1)]"
      using notin none by (simp add: count_tag_def Map_set_new)
    have "sorted_wrt (\<lambda>a b. first_index (ts @ [t]) a < first_index (ts @ [t]) b) (map fst ?R)"
      using srt keys by (rule_tac sorted_wrt_mono_rel [rotated]) (auto simp: first_index_snoc_old)
    moreover have "\<forall>k \<in> set (map fst ?R). first_index (ts @ [t]) k < first_index (ts @ [t]) t"
      using keys False by (auto simp: first_index_snoc_old first_index_snoc_new first_index_less)
    ultimately have "sorted_wrt (\<lambda>a b. first_index (ts @ [t]) a < first_index (ts @ [t]) b)
        (map fst ?R')"
      unfolding R'eq by (simp add: sorted_wrt_append)
    moreover have "\<forall>k d. (k, d) \<in> set ?R' \<longrightarrow> d = count_list (ts @ [t]) k"
      unfolding R'eq using cnt False keys by (auto simp: count_list_snoc rev_image_eqI)
    moreover have "distinct (map fst ?R')" "set (map fst ?R') = set (ts @ [t])"
      unfolding R'eq using dist keys notin by auto
    ultimately show ?thesis by blast
  qed
qed

lemma sorted_wrt_by_class:
  "(\<And>k. sorted_wrt Q (filter (\<lambda>y. g y = k) xs)) \<Longrightarrow> sorted_wrt (\<lambda>a b. g a = g b \<longrightarrow> Q a b) xs"
proof (induction xs)
  case Nil
  show ?case by simp
next
  case (Cons x xs)
  have "sorted_wrt Q (filter (\<lambda>y. g y = k) xs)" for k
    using Cons.prems [of k] by (cases "g x = k") simp_all
  then have tail: "sorted_wrt (\<lambda>a b. g a = g b \<longrightarrow> Q a b) xs" by (rule Cons.IH)
  have "\<forall>y \<in> set xs. g x = g y \<longrightarrow> Q x y"
    using Cons.prems [of "g x"] by auto
  with tail show ?case by simp
qed


lemma sorted_wrt_conj:
  "sorted_wrt (\<lambda>a b. P a b \<and> Q a b) xs \<longleftrightarrow> sorted_wrt P xs \<and> sorted_wrt Q xs"
  by (induction xs) auto

lemma ranking_props:
  fixes posts :: "WixBlogPost list"
  defines "ts \<equiv> all_tags posts"
  defines "S \<equiv> sort_by (\<lambda>a b. int (snd b) - int (snd a)) (tagCounts posts)"
  shows "distinct (map fst S)" "set (map fst S) = set ts"
    "\<And>k c. (k, c) \<in> set S \<Longrightarrow> c = count_list ts k"
    "sorted_wrt (\<lambda>a b. ranks_before ts \<lparr>tag = fst a, count = snd a\<rparr> \<lparr>tag = fst b, count = snd b\<rparr>) S"
proof -
  let ?f = "\<lambda>p :: jsstring \<times> nat. - int (snd p)"
  let ?R = "tagCounts posts"
  have S: "S = sort_key ?f ?R" unfolding S_def by (rule sort_by_sort_key)
  have inv: "distinct (map fst ?R)" "set (map fst ?R) = set ts"
    "sorted_wrt (\<lambda>a b. first_index ts a < first_index ts b) (map fst ?R)"
    "\<And>k c. (k, c) \<in> set ?R \<Longrightarrow> c = count_list ts k"
    using tag_table_inv [of ts] unfolding ts_def tagCounts_fold by blast+
  have setS: "set S = set ?R" and lenS: "length S = length ?R" by (simp_all add: S)
  show keys: "set (map fst S) = set ts" using inv(2) setS by simp
  show "\<And>k c. (k, c) \<in> set S \<Longrightarrow> c = count_list ts k" using inv(4) setS by simp
  have "card (set (map fst S)) = card (set (map fst ?R))" using setS by simp
  also have "\<dots> = length (map fst ?R)" using inv(1) by (rule distinct_card)
  also have "\<dots> = length (map fst S)" using lenS by simp
  finally show "distinct (map fst S)" by (rule card_distinct)
  have "sorted (map ?f S)" unfolding S by (rule sorted_sort_key)
  then have desc: "sorted_wrt (\<lambda>a b. snd b \<le> snd a) S"
    by (simp add: sorted_map)
  have Rfi: "sorted_wrt (\<lambda>a b. first_index ts (fst a) < first_index ts (fst b)) ?R"
    using inv(3) by (simp add: sorted_wrt_map)
  have "sorted_wrt (\<lambda>a b. first_index ts (fst a) < first_index ts (fst b))
          (filter (\<lambda>y. ?f y = k) S)" for k
    unfolding S sort_key_stable using Rfi by (rule sorted_wrt_filter)
  then have "sorted_wrt (\<lambda>a b. ?f a = ?f b \<longrightarrow> first_index ts (fst a) < first_index ts (fst b)) S"
    by (rule sorted_wrt_by_class)
  with desc have "sorted_wrt (\<lambda>a b. snd b \<le> snd a
      \<and> (?f a = ?f b \<longrightarrow> first_index ts (fst a) < first_index ts (fst b))) S"
    by (simp add: sorted_wrt_conj)
  then show "sorted_wrt (\<lambda>a b. ranks_before ts \<lparr>tag = fst a, count = snd a\<rparr> \<lparr>tag = fst b, count = snd b\<rparr>) S"
    by (rule sorted_wrt_mono_rel [rotated]) (auto simp: ranks_before_def)
qed


text \<open>
  C6. \<open>tagsTop10\<close> lists \<open>min 10 n\<close> distinct tags of the \<open>n\<close> distinct tags of the
  collection, each with its number of occurrences; the list is in descending order of
  count and, for equal counts, in the order in which the tags were first encountered
  in the scan of the posts; every tag left out ranks after every listed one in that same
  order. The witness evaluates the tags \<open>[a,a,b,a,b,c]\<close> to \<open>a(3), b(2), c(1)\<close>.
\<close>

theorem tagsTop10_ranking:
  fixes posts :: "WixBlogPost list" and cust :: jsstring and ledger :: "ImageDownloadResult list"
  defines "ts \<equiv> all_tags posts"
  defines "T \<equiv> tagsTop10 (generateSummaryReport posts cust ledger)"
  shows "length T = min 10 (card (set ts))
     \<and> distinct (map tag T)
     \<and> (\<forall>e \<in> set T. tag e \<in> set ts \<and> count e = count_list ts (tag e))
     \<and> sorted_wrt (ranks_before ts) T
     \<and> (\<forall>t \<in> set ts. t \<notin> tag ` set T
          \<longrightarrow> (\<forall>e \<in> set T. ranks_before ts e \<lparr>tag = t, count = count_list ts t\<rparr>))"
proof -
  define S where "S = sort_by (\<lambda>a b. int (snd b) - int (snd a)) (tagCounts posts)"
  define mk where "mk = (\<lambda>p :: jsstring \<times> nat. \<lparr>tag = fst p, count = snd p\<rparr>)"
  have T: "T = map mk (take 10 S)"
    by (simp add: T_def generateSummaryReport_def S_def mk_def case_prod_unfold)
  have tag_mk: "tag \<circ> mk = fst" and tag_mk': "\<And>p. tag (mk p) = fst p"
    and count_mk: "\<And>p. count (mk p) = snd p"
    by (auto simp: mk_def)
  have dist: "distinct (map fst S)" and keys: "set (map fst S) = set ts"
    and cnt: "\<And>k c. (k, c) \<in> set S \<Longrightarrow> c = count_list ts k"
    and srt: "sorted_wrt (\<lambda>a b. ranks_before ts (mk a) (mk b)) S"
    using ranking_props [where posts = posts] unfolding S_def ts_def mk_def by blast+
  have "length S = card (set ts)"
    using distinct_card [OF dist] keys by simp
  then have len: "length T = min 10 (card (set ts))" by (simp add: T min.commute)
  have "distinct (map fst (take 10 S))"
    using dist by (simp add: take_map [symmetric] distinct_take)
  then have dT: "distinct (map tag T)" by (simp add: T tag_mk)
  have mem: "\<forall>e \<in> set T. tag e \<in> set ts \<and> count e = count_list ts (tag e)"
  proof
    fix e assume "e \<in> set T"
    then obtain p where p: "p \<in> set (take 10 S)" and e: "e = mk p" by (auto simp: T)
    from p have pS: "p \<in> set S" by (rule in_set_takeD)
    then have "fst p \<in> set ts" using keys by force
    moreover have "snd p = count_list ts (fst p)" using cnt [of "fst p" "snd p"] pS by simp
    ultimately show "tag e \<in> set ts \<and> count e = count_list ts (tag e)"
      by (simp add: e tag_mk' count_mk)
  qed
  have split: "sorted_wrt (\<lambda>a b. ranks_before ts (mk a) (mk b)) (take 10 S @ drop 10 S)"
    using srt by simp
  then have "sorted_wrt (\<lambda>a b. ranks_before ts (mk a) (mk b)) (take 10 S)"
    unfolding sorted_wrt_append by blast
  then have sT: "sorted_wrt (ranks_before ts) T" by (simp add: T sorted_wrt_map)
  have cross: "\<forall>a \<in> set (take 10 S). \<forall>b \<in> set (drop 10 S). ranks_before ts (mk a) (mk b)"
    using split unfolding sorted_wrt_append by blast
  have out: "\<forall>t \<in> set ts. t \<notin> tag ` set T
          \<longrightarrow> (\<forall>e \<in> set T. ranks_before ts e \<lparr>tag = t, count = count_list ts t\<rparr>)"
  proof (intro ballI impI)
    fix t e assume t: "t \<in> set ts" and nt: "t \<notin> tag ` set T" and e: "e \<in> set T"
    from t keys obtain c where tc: "(t, c) \<in> set S" by force
    then have c: "c = count_list ts t" by (rule cnt)
    have "(t, c) \<notin> set (take 10 S)"
    proof
      assume "(t, c) \<in> set (take 10 S)"
      then have "mk (t, c) \<in> set T" by (simp add: T)
      then have "tag (mk (t, c)) \<in> tag ` set T" by (rule imageI)
      then show False using nt by (simp add: tag_mk')
    qed
    moreover have "set S = set (take 10 S) \<union> set (drop 10 S)"
      by (metis append_take_drop_id set_append)
    ultimately have "(t, c) \<in> set (drop 10 S)" using tc by blast
    moreover from e obtain p where "p \<in> set (take 10 S)" and "e = mk p" by (auto simp: T)
    ultimately have "ranks_before ts e (mk (t, c))" using cross by blast
    then show "ranks_before ts e \<lparr>tag = t, count = count_list ts t\<rparr>"
      by (simp add: mk_def c)
  qed
  from len dT mem sT out show ?thesis by blast
qed


lemma tagsTop10_example:
  "tagsTop10 (generateSummaryReport
      [example_post ''p1'' None [''a'', ''a'', ''b''], example_post ''p2'' (Some ''DRAFT'') [''a'', ''b'', ''c'']]
      (js ''acme'') [])
   = [\<lparr>tag = js ''a'', count = 3\<rparr>, \<lparr>tag = js ''b'', count = 2\<rparr>, \<lparr>tag = js ''c'', count = 1\<rparr>]"
  by (simp add: generateSummaryReport_def tagCounts_def post_tags_def example_post_def
      count_tag_def sort_by_def js_def)

lemma tagsTop10_tie_example:
  "tagsTop10 (generateSummaryReport
      [example_post ''p1'' None [''c'', ''b''], example_post ''p2'' None [''a'', ''b'', ''a'']]
      (js ''acme'') [])
   = [\<lparr>tag = js ''b'', count = 2\<rparr>, \<lparr>tag = js ''a'', count = 2\<rparr>, \<lparr>tag = js ''c'', count = 1\<rparr>]"
  by (simp add: generateSummaryReport_def tagCounts_def post_tags_def example_post_def
      count_tag_def sort_by_def js_def)

theorem tagsTop10_ranking_witness:
  "all_tags [example_post ''p1'' None [''a'', ''a'', ''b''],
             example_post ''p2'' (Some ''DRAFT'') [''a'', ''b'', ''c'']]
     = [js ''a'', js ''a'', js ''b'', js ''a'', js ''b'', js ''c'']
   \<and> tagsTop10 (generateSummaryReport
      [example_post ''p1'' None [''a'', ''a'', ''b''], example_post ''p2'' (Some ''DRAFT'') [''a'', ''b'', ''c'']]
      (js ''acme'') [])
     = [\<lparr>tag = js ''a'', count = 3\<rparr>, \<lparr>tag = js ''b'', count = 2\<rparr>, \<lparr>tag = js ''c'', count = 1\<rparr>]
   \<and> sorted_wrt (ranks_before [js ''a'', js ''a'', js ''b'', js ''a'', js ''b'', js ''c''])
       [\<lparr>tag = js ''a'', count = 3\<rparr>, \<lparr>tag = js ''b'', count = 2\<rparr>, \<lparr>tag = js ''c'', count = 1\<rparr>]"
proof -
  let ?ps = "[example_post ''p1'' None [''a'', ''a'', ''b''],
      example_post ''p2'' (Some ''DRAFT'') [''a'', ''b'', ''c'']]"
  have ts: "all_tags ?ps = [js ''a'', js ''a'', js ''b'', js ''a'', js ''b'', js ''c'']"
    by (simp add: all_tags_def post_tags_def example_post_def)
  have "sorted_wrt (ranks_before (all_tags ?ps)) (tagsTop10 (generateSummaryReport ?ps (js ''acme'') []))"
    using tagsTop10_ranking [of ?ps "js ''acme''" "[]"] by blast
  then show ?thesis
    using ts tagsTop10_example by simp
qed

section \<open>CSV escaping\<close>

lemma quoted_props: "2 \<le> length (quoted x)" "hd (quoted x) = 0x22" "last (quoted x) = 0x22"
  "butlast (tl (quoted x)) = x"
  by (simp_all add: quoted_def js_def butlast_append)

lemma undouble_cons_other: "a \<noteq> 0x22 \<Longrightarrow> undouble (a # s) = a # undouble s"
  by (cases s) simp_all

lemma undouble_replace_char: "undouble (replace_char 0x22 (js [CHR 0x22, CHR 0x22]) s) = s"
proof (induction s)
  case Nil
  show ?case by (simp add: replace_char_def)
next
  case (Cons c s)
  have tl: "replace_char 0x22 (js [CHR 0x22, CHR 0x22]) (c # s)
      = (if c = 0x22 then [0x22, 0x22] else [c]) @ replace_char 0x22 (js [CHR 0x22, CHR 0x22]) s"
    by (simp add: replace_char_def js_def)
  show ?case using Cons.IH by (simp add: tl undouble_cons_other)
qed

lemma count_replace_char:
  "count_list (replace_char 0x22 (js [CHR 0x22, CHR 0x22]) s) 0x22 = 2 * count_list s 0x22"
  by (induction s) (simp_all add: replace_char_def js_def)

lemma replace_char_absent: "c \<notin> set rep \<Longrightarrow> c \<notin> set (replace_char c rep s)"
  by (induction s) (auto simp: replace_char_def)

lemma replace_char_twice:
  "replace_char 0x0A [0x5C, 0x6E] (replace_char 0x22 [0x22, 0x22] s)
   = concat (map (\<lambda>c. if c = 0x0A then [0x5C, 0x6E]
                        else if c = 0x22 then [0x22, 0x22] else [c]) s)"
  by (induction s) (simp_all add: replace_char_def)

lemma takeWhile_until: "x \<notin> set xs \<Longrightarrow> takeWhile (\<lambda>c. c \<noteq> x) (xs @ x # ys) = xs"
  by (induction xs) auto

lemma fold_append_lines:
  "fold (\<lambda>x acc. acc @ f x) xs init = init @ concat (map f xs)"
  by (induction xs arbitrary: init) simp_all

lemma exportCSV_lines:
  "exportCSV pf opts posts = join (js '','') (csv_headers opts) @ [0x0A]
      @ concat (map (\<lambda>p. join (js '','') (csv_row pf opts p) @ [0x0A]) posts)"
  by (simp add: exportCSV_def fold_append_lines js_def)

lemma header_no_newline: "0x0A \<notin> set (join (js '','') (csv_headers opts))"
  by (simp add: csv_headers_def js_def)


text \<open>
  C8. Every field of a post's CSV row starts and ends with a double quote; the title
  field holds the title with every double quote doubled (twice as many quotes, and
  reading doubled quotes back as single ones returns the title); with content included
  the last field is the content with quotes doubled and every newline replaced by the
  two characters backslash and \<open>n\<close>, so it holds no newline; the header row is the
  first line of the file, followed by one line per post.
\<close>

theorem csv_escaping:
  "(\<forall>f \<in> set (csv_row pf opts post). 2 \<le> length f \<and> hd f = 0x22 \<and> last f = 0x22)
   \<and> csv_row pf opts post ! 2 = quoted (replace_char 0x22 [0x22, 0x22] (title post))
   \<and> count_list (butlast (tl (csv_row pf opts post ! 2))) 0x22 = 2 * count_list (title post) 0x22
   \<and> undouble (butlast (tl (csv_row pf opts post ! 2))) = title post
   \<and> (includeContent opts \<longrightarrow>
        last (csv_row pf opts post)
          = quoted (concat (map (\<lambda>c. if c = 0x0A then [0x5C, 0x6E]
                                     else if c = 0x22 then [0x22, 0x22] else [c])
                      (or_else (contentText post) [])))
        \<and> 0x0A \<notin> set (last (csv_row pf opts post)))
   \<and> takeWhile (\<lambda>c. c \<noteq> 0x0A) (exportCSV pf opts posts) = join (js '','') (csv_headers opts)
   \<and> exportCSV pf opts posts = join (js '','') (csv_headers opts) @ [0x0A]
        @ concat (map (\<lambda>p. join (js '','') (csv_row pf opts p) @ [0x0A]) posts)"
proof -
  have wrap: "\<forall>f \<in> set (csv_row pf opts post). 2 \<le> length f \<and> hd f = 0x22 \<and> last f = 0x22"
    by (simp add: csv_row_def quoted_props)
  have title_field:
    "csv_row pf opts post ! 2 = quoted (replace_char 0x22 (js [CHR 0x22, CHR 0x22]) (title post))"
    by (simp add: csv_row_def)
  have lit: "js [CHR 0x22, CHR 0x22] = [0x22, 0x22]" "js [CHR 0x5C, CHR ''n''] = [0x5C, 0x6E]"
    by (simp_all add: js_def)
  have cnt: "count_list (butlast (tl (csv_row pf opts post ! 2))) 0x22 = 2 * count_list (title post) 0x22"
    by (simp only: title_field quoted_props count_replace_char)
  have readback: "undouble (butlast (tl (csv_row pf opts post ! 2))) = title post"
    by (simp only: title_field quoted_props undouble_replace_char)
  have content: "last (csv_row pf opts post)
          = quoted (concat (map (\<lambda>c. if c = 0x0A then [0x5C, 0x6E]
                                     else if c = 0x22 then [0x22, 0x22] else [c])
                      (or_else (contentText post) [])))
        \<and> 0x0A \<notin> set (last (csv_row pf opts post))" if "includeContent opts"
  proof -
    have l: "last (csv_row pf opts post) = quoted (replace_char 0x0A (js [CHR 0x5C, CHR ''n''])
                (replace_char 0x22 (js [CHR 0x22, CHR 0x22]) (or_else (contentText post) [])))"
      using that by (simp add: csv_row_def)
    have "0x0A \<notin> set (replace_char 0x0A (js [CHR 0x5C, CHR ''n''])
                (replace_char 0x22 (js [CHR 0x22, CHR 0x22]) (or_else (contentText post) [])))"
      by (rule replace_char_absent) (simp add: js_def)
    then have "0x0A \<notin> set (last (csv_row pf opts post))"
      unfolding l by (simp add: quoted_def js_def)
    then show ?thesis
      using l by (simp add: lit replace_char_twice)
  qed
  have first: "takeWhile (\<lambda>c. c \<noteq> 0x0A) (exportCSV pf opts posts) = join (js '','') (csv_headers opts)"
    unfolding exportCSV_lines using header_no_newline [of opts]
    by (simp add: takeWhile_until)
  show ?thesis
    using wrap title_field cnt readback content first exportCSV_lines [of pf opts posts]
    by (simp only: lit) blast
qed


theorem csv_escaping_witness:
  \<open>csv_row example_platform (example_options ''/out'')
      ((example_post ''p1'' None [])
         \<lparr> title := js ''My "Great" Post'', contentText := Some (js ''a "b"'' @ [0x0A] @ js ''c'') \<rparr>) ! 2
     = js ''"My ""Great"" Post"''
   \<and> last (csv_row example_platform (example_options ''/out'')
      ((example_post ''p1'' None [])
         \<lparr> title := js ''My "Great" Post'', contentText := Some (js ''a "b"'' @ [0x0A] @ js ''c'') \<rparr>))
     = js ''"a ""b""'' @ [0x5C] @ js ''nc"''
   \<and> includeContent (example_options ''/out'')
   \<and> hd (last (csv_row example_platform (example_options ''/out'')
      ((example_post ''p1'' None [])
         \<lparr> title := js ''My "Great" Post'', contentText := Some (js ''a "b"'' @ [0x0A] @ js ''c'') \<rparr>))) = 0x22
   \<and> takeWhile (\<lambda>c. c \<noteq> 0x0A) (exportCSV example_platform (example_options ''/out'')
      [(example_post ''p1'' None [])
         \<lparr> title := js ''My "Great" Post'', contentText := Some (js ''a "b"'' @ [0x0A] @ js ''c'') \<rparr>])
     = js ''id,slug,title,status,firstPublishedDate,lastPublishedDate,featured,url,tags,categoryIds,readingTime,coverImageUrl,coverImageLocalPath,contentLength,excerptLength,content''\<close>
proof -
  let ?p = \<open>(example_post ''p1'' None [])
         \<lparr> title := js ''My "Great" Post'', contentText := Some (js ''a "b"'' @ [0x0A] @ js ''c'') \<rparr>\<close>
  let ?o = "example_options ''/out''"
  have inc: "includeContent ?o" by (simp add: example_options_def)
  have t: \<open>quoted (replace_char 0x22 [0x22, 0x22] (title ?p)) = js ''"My ""Great"" Post"''\<close>
    by (simp add: example_post_def quoted_def replace_char_def js_def)
  have c: \<open>quoted (concat (map (\<lambda>c. if c = 0x0A then [0x5C, 0x6E]
                                     else if c = 0x22 then [0x22, 0x22] else [c])
                      (or_else (contentText ?p) []))) = js ''"a ""b""'' @ [0x5C] @ js ''nc"''\<close>
    by (simp add: example_post_def quoted_def js_def)
  have h: "join (js '','') (csv_headers ?o) = js ''id,slug,title,status,firstPublishedDate,lastPublishedDate,featured,url,tags,categoryIds,readingTime,coverImageUrl,coverImageLocalPath,contentLength,excerptLength,content''"
    by (simp add: csv_headers_def example_options_def js_def)
  have l: "last (csv_row example_platform ?o ?p) \<in> set (csv_row example_platform ?o ?p)"
    by (rule last_in_set) (simp add: csv_row_def)
  note E = csv_escaping [where pf = example_platform and opts = ?o and post = ?p and posts = "[?p]"]
  have "hd (last (csv_row example_platform ?o ?p)) = 0x22"
    using E [THEN conjunct1] l by blast
  moreover have "csv_row example_platform ?o ?p ! 2 = js ''\"My \"\"Great\"\" Post\"''"
    using E [THEN conjunct2, THEN conjunct1] by (simp only: t)
  moreover have "last (csv_row example_platform ?o ?p) = js ''\"a \"\"b\"\"'' @ [0x5C] @ js ''nc\"''"
    using E [THEN conjunct2, THEN conjunct2, THEN conjunct2, THEN conjunct2, THEN conjunct1] inc
    by (simp only: c)
  moreover have "takeWhile (\<lambda>c. c \<noteq> 0x0A) (exportCSV example_platform ?o [?p]) = js ''id,slug,title,status,firstPublishedDate,lastPublishedDate,featured,url,tags,categoryIds,readingTime,coverImageUrl,coverImageLocalPath,contentLength,excerptLength,content''"
    using E [THEN conjunct2, THEN conjunct2, THEN conjunct2, THEN conjunct2, THEN conjunct2,
        THEN conjunct1]
    by (simp only: h)
  ultimately show ?thesis
    using inc by blast
qed

section \<open>Rewriting image references\<close>






















text \<open>
  The two patterns of \<open>utils.ts\<close> differ on an alt text that holds \<open>]\<close>: the extractor,
  whose alt text is \<open>.*?\<close>, finds the URL of such a reference, so that the image is
  downloaded and gets a local path; the rewriter, whose alt text is \<open>[^\]]*\<close>, does not
  match the reference and keeps its URL.
\<close>

lemma bracket_in_alt_text:
  "extractInlineImageUrls (js ''![see [1] here](http://x/y.png)'') = [js ''http://x/y.png'']
   \<and> rewriteMarkdownImageUrls (js ''![see [1] here](http://x/y.png)'')
        [js ''http://x/y.png'' \<mapsto> js ''images/p/image-0a1b2c3d.png'']
     = js ''![see [1] here](http://x/y.png)''"
  by (simp add: extractInlineImageUrls_def unique_def match_inline_def match_url_def
      rewriteMarkdownImageUrls_def match_image_def
      strip_prefix_def js_def url_char_def is_space_def is_line_terminator_def)

section \<open>Failed downloads and skipped runs\<close>

lemma fetched_append: "fetched (xs @ ys) = fetched xs @ fetched ys"
  by (induction xs rule: fetched.induct) simp_all

lemma requests_events: "requests (w\<lparr>events := es\<rparr>) = fetched es"
  by (simp add: requests_def)

lemma attempts_all_fail:
  assumes "\<forall>k. attempt \<le> k \<and> k \<le> retry opts
      \<longrightarrow> fetch_result (net (length (requests w) + (k - attempt)) u) = Inl (e k)"
  shows "download_attempts pf net opts postSlug u ty imagesDir result attempt lastError w
     = (result\<lparr>error := Some (if attempt \<le> retry opts then e (retry opts) else lastError)\<rparr>,
        w\<lparr>events := events w
           @ concat (map (\<lambda>k. Fetch u # (if k < retry opts then [Sleep (2 ^ k * 1000)] else []))
               [attempt..<Suc (retry opts)])\<rparr>)"
  using assms
proof (induction pf net opts postSlug u ty imagesDir result attempt lastError w
    rule: download_attempts.induct)
  case (1 pf net opts postSlug u ty imagesDir result attempt lastError w)
  let ?step = "\<lambda>k. Fetch u # (if k < retry opts then [Sleep (2 ^ k * 1000)] else [])"
  show ?case
  proof (cases "attempt \<le> retry opts")
    case False
    then show ?thesis
      by (subst download_attempts.simps) simp
  next
    case True
    let ?w' = "w\<lparr>events := events w @ [Fetch u]\<rparr>"
    let ?w'' = "if attempt = retry opts then ?w'
                else ?w'\<lparr>events := events ?w' @ [Sleep (2 ^ attempt * 1000)]\<rparr>"
    have here: "fetch_result (net (length (requests w)) u) = Inl (e attempt)"
      using "1.prems" True by (metis add_0_right diff_self_eq_0 order_refl)
    then have f: "fetch_image net u w = (Inl (e attempt), ?w')"
      by (simp add: fetch_image_def)
    have len: "length (requests ?w'') = length (requests w) + 1"
      by (simp add: requests_events fetched_append) (simp add: requests_def)
    have later: "\<forall>k. attempt + 1 \<le> k \<and> k \<le> retry opts
        \<longrightarrow> fetch_result (net (length (requests ?w'') + (k - (attempt + 1))) u) = Inl (e k)"
    proof (intro allI impI)
      fix k assume k: "attempt + 1 \<le> k \<and> k \<le> retry opts"
      with len have "length (requests ?w'') + (k - (attempt + 1)) = length (requests w) + (k - attempt)"
        by linarith
      moreover have "fetch_result (net (length (requests w) + (k - attempt)) u) = Inl (e k)"
        using "1.prems" k by simp
      ultimately show "fetch_result (net (length (requests ?w'') + (k - (attempt + 1))) u) = Inl (e k)"
        by simp
    qed
    have IH: "download_attempts pf net opts postSlug u ty imagesDir result (attempt + 1) (e attempt) ?w''
       = (result\<lparr>error := Some (if attempt + 1 \<le> retry opts then e (retry opts) else e attempt)\<rparr>,
          ?w''\<lparr>events := events ?w'' @ concat (map ?step [attempt + 1..<Suc (retry opts)])\<rparr>)"
      using "1.IH" [OF True f [symmetric] refl later] .
    have unfold: "download_attempts pf net opts postSlug u ty imagesDir result attempt lastError w
       = download_attempts pf net opts postSlug u ty imagesDir result (attempt + 1) (e attempt) ?w''"
      using True f by (subst download_attempts.simps) simp
    have err: "(if attempt + 1 \<le> retry opts then e (retry opts) else e attempt) = e (retry opts)"
      using True by (cases "attempt = retry opts") auto
    have "[attempt..<Suc (retry opts)] = attempt # [attempt + 1..<Suc (retry opts)]"
      using True by (simp add: upt_conv_Cons)
    then have ev: "events ?w'' @ concat (map ?step [attempt + 1..<Suc (retry opts)])
        = events w @ concat (map ?step [attempt..<Suc (retry opts)])"
      using True by (cases "attempt = retry opts") simp_all
    have "?w''\<lparr>events := events ?w'' @ concat (map ?step [attempt + 1..<Suc (retry opts)])\<rparr>
        = w\<lparr>events := events w @ concat (map ?step [attempt..<Suc (retry opts)])\<rparr>"
      unfolding ev by simp
    then show ?thesis
      unfolding unfold IH err using True by simp
  qed
qed

lemma attempts_identity:
  "postId (fst (download_attempts pf net opts postSlug u ty imagesDir result attempt lastError w))
     = postId result
   \<and> originalUrl (fst (download_attempts pf net opts postSlug u ty imagesDir result attempt lastError w))
     = originalUrl result"
proof (induction pf net opts postSlug u ty imagesDir result attempt lastError w
    rule: download_attempts.induct)
  case (1 pf net opts postSlug u ty imagesDir result attempt lastError w)
  show ?case
  proof (cases "attempt \<le> retry opts")
    case False
    then show ?thesis by (subst (1 2) download_attempts.simps) simp
  next
    case True
    obtain x w' where f: "fetch_image net u w = (x, w')" by (cases "fetch_image net u w")
    show ?thesis
    proof (cases x)
      case (Inl msg)
      with "1.IH" [OF True f [symmetric, unfolded Inl] refl] True f show ?thesis
        by (subst (1 2) download_attempts.simps) simp
    next
      case (Inr buffer)
      with True f show ?thesis
        by (subst (1 2) download_attempts.simps) (simp split: prod.splits)
    qed
  qed
qed

lemma downloadSingleImage_identity:
  "postId (fst (downloadSingleImage pf net opts pId postSlug u ty imagesDir w)) = pId"
  "originalUrl (fst (downloadSingleImage pf net opts pId postSlug u ty imagesDir w)) = u"
  using attempts_identity [of pf net opts postSlug u ty imagesDir
      "\<lparr>postId = pId, originalUrl = u, localPath = None, success = False, error = None\<rparr>" 1 "[]" w]
  by (simp_all add: downloadSingleImage_def)

lemma run_downloads_append:
  "run_downloads pf net opts imagesDir (xs @ ys) w
     = (fst (run_downloads pf net opts imagesDir xs w)
          @ fst (run_downloads pf net opts imagesDir ys (snd (run_downloads pf net opts imagesDir xs w))),
        snd (run_downloads pf net opts imagesDir ys (snd (run_downloads pf net opts imagesDir xs w))))"
  by (induction xs arbitrary: w) (simp_all split: prod.splits)

lemma run_downloads_ids:
  "map (\<lambda>r. (postId r, originalUrl r)) (fst (run_downloads pf net opts imagesDir ds w))
     = map (\<lambda>d. (dl_postId d, dl_url d)) ds"
proof (induction ds arbitrary: w)
  case Nil
  show ?case by simp
next
  case (Cons d ds)
  obtain r w' where r: "downloadSingleImage pf net opts (dl_postId d) (dl_postSlug d) (dl_url d)
      (dl_type d) imagesDir w = (r, w')"
    by (cases "downloadSingleImage pf net opts (dl_postId d) (dl_postSlug d) (dl_url d)
      (dl_type d) imagesDir w")
  have "postId r = dl_postId d" "originalUrl r = dl_url d"
    using downloadSingleImage_identity [of pf net opts "dl_postId d" "dl_postSlug d" "dl_url d"
        "dl_type d" imagesDir w] r by simp_all
  then show ?case using r Cons.IH [of w'] by (simp add: case_prod_unfold)
qed

lemma downloadAllImages_ledger:
  assumes "downloadImages (options this)" "\<not> dryRun (options this)"
  shows "downloadResults (fst (snd (downloadAllImages pf net this posts outDir w)))
     = downloadResults this
       @ fst (run_downloads pf net (options this) (createSafePath pf [outDir, js ''images''])
           (concat (map (post_downloads pf) posts))
           (if \<not> existsSync w (createSafePath pf [outDir, js ''images''])
            then mkdirSync pf w (createSafePath pf [outDir, js ''images'']) else w))"
proof (cases "concat (map (post_downloads pf) posts) = []")
  case True
  show ?thesis
    unfolding downloadAllImages_def Let_def True using assms by simp
next
  case False
  with assms show ?thesis
    by (simp add: downloadAllImages_def Let_def case_prod_unfold del: concat_eq_Nil_conv)
qed


lemma run_downloads_length:
  "length (fst (run_downloads pf net opts imagesDir ds w)) = length ds"
  using arg_cong [OF run_downloads_ids [of pf net opts imagesDir ds w], of length] by simp

text \<open>
  C3. A download whose fetch fails on each of the \<open>R = retry\<close> attempts (attempt \<open>k\<close>
  with message \<open>e k\<close>) returns the one result \<open>success = false\<close> that carries the
  message of the last attempt; it makes \<open>R\<close> requests and, right after each attempt
  \<open>k < R\<close> and not after the last, awaits \<open>2 ^ k\<close> seconds. The run goes on: the results of a
  run hold that one entry at the task's position, between the results of the downloads
  before it and of those after it, one result per download; and the ledger after
  \<open>downloadAllImages\<close> is the ledger before it followed by the results of the run.
\<close>

theorem failed_download_recorded:
  fixes pf :: platform and net :: network and opts :: ExportOptions and imagesDir :: jsstring
    and before after :: "image_download list" and d :: image_download and w :: world
    and e :: "nat \<Rightarrow> jsstring"
  defines "w1 \<equiv> snd (run_downloads pf net opts imagesDir before w)"
  defines "entry \<equiv> \<lparr>postId = dl_postId d, originalUrl = dl_url d, localPath = None,
      success = False, error = Some (if retry opts = 0 then [] else e (retry opts))\<rparr>"
  defines "w2 \<equiv> w1\<lparr>events := events w1
      @ concat (map (\<lambda>attempt. Fetch (dl_url d)
                       # (if attempt < retry opts then [Sleep (2 ^ attempt * 1000)] else []))
          [1..<Suc (retry opts)])\<rparr>"
  assumes fails: "\<forall>k. 1 \<le> k \<and> k \<le> retry opts
      \<longrightarrow> fetch_result (net (length (requests w1) + (k - 1)) (dl_url d)) = Inl (e k)"
  shows "downloadSingleImage pf net opts (dl_postId d) (dl_postSlug d) (dl_url d) (dl_type d)
       imagesDir w1 = (entry, w2)
     \<and> run_downloads pf net opts imagesDir (before @ d # after) w
       = (fst (run_downloads pf net opts imagesDir before w) @ entry
            # fst (run_downloads pf net opts imagesDir after w2),
          snd (run_downloads pf net opts imagesDir after w2))
     \<and> length (fst (run_downloads pf net opts imagesDir (before @ d # after) w))
       = length before + 1 + length after
     \<and> (downloadImages (options this) \<and> \<not> dryRun (options this) \<longrightarrow>
         downloadResults (fst (snd (downloadAllImages pf net this posts outDir w0)))
         = downloadResults this
           @ fst (run_downloads pf net (options this) (createSafePath pf [outDir, js ''images''])
               (concat (map (post_downloads pf) posts))
               (if \<not> existsSync w0 (createSafePath pf [outDir, js ''images''])
                then mkdirSync pf w0 (createSafePath pf [outDir, js ''images'']) else w0)))"
proof -
  have single: "downloadSingleImage pf net opts (dl_postId d) (dl_postSlug d) (dl_url d) (dl_type d)
       imagesDir w1 = (entry, w2)"
  proof -
    note A = attempts_all_fail [where e = e and attempt = 1 and opts = opts and net = net
        and w = w1 and u = "dl_url d", OF fails]
    show ?thesis
      unfolding downloadSingleImage_def A by (auto simp: entry_def w2_def)
  qed
  have "run_downloads pf net opts imagesDir (d # after) w1
      = (entry # fst (run_downloads pf net opts imagesDir after w2),
         snd (run_downloads pf net opts imagesDir after w2))"
    using single by (simp add: case_prod_unfold)
  then have run: "run_downloads pf net opts imagesDir (before @ d # after) w
       = (fst (run_downloads pf net opts imagesDir before w) @ entry
            # fst (run_downloads pf net opts imagesDir after w2),
          snd (run_downloads pf net opts imagesDir after w2))"
    by (simp add: run_downloads_append [of _ _ _ _ before] w1_def)
  have len: "length (fst (run_downloads pf net opts imagesDir (before @ d # after) w))
       = length before + 1 + length after"
    by (simp add: run_downloads_length)
  from single run len downloadAllImages_ledger [of this pf net posts outDir w0]
  show ?thesis by blast
qed


theorem failed_download_recorded_witness:
  "retry ((example_options ''/out'')\<lparr>downloadImages := True\<rparr>) = 3
   \<and> fetch_result (failing_network 0 (js ''https://example.com/test-image.jpg''))
       = Inl (js ''HTTP 500: Internal Server Error'')
   \<and> downloadSingleImage example_platform failing_network
        ((example_options ''/out'')\<lparr>downloadImages := True\<rparr>)
        (js ''test-id'') (js ''test-blog-post'') (js ''https://example.com/test-image.jpg'') Cover
        (js ''/out/images'') empty_world
     = (\<lparr>postId = js ''test-id'', originalUrl = js ''https://example.com/test-image.jpg'',
          localPath = None, success = False,
          error = Some (js ''HTTP 500: Internal Server Error'')\<rparr>,
        \<lparr>fs = Map.empty,
          events = [Fetch (js ''https://example.com/test-image.jpg''), Sleep 2000,
                    Fetch (js ''https://example.com/test-image.jpg''), Sleep 4000,
                    Fetch (js ''https://example.com/test-image.jpg'')]\<rparr>)"
proof -
  let ?opts = "(example_options ''/out'')\<lparr>downloadImages := True\<rparr>"
  let ?u = "js ''https://example.com/test-image.jpg''"
  let ?d = "\<lparr>dl_postId = js ''test-id'', dl_postSlug = js ''test-blog-post'', dl_url = ?u,
      dl_type = Cover\<rparr>"
  have r: "retry ?opts = 3" by (simp add: example_options_def)
  have f: "fetch_result (failing_network n ?u) = Inl (js ''HTTP 500: Internal Server Error'')" for n
    by (simp add: fetch_result_def failing_network_def js_def)
  have hyp: "\<forall>k. 1 \<le> k \<and> k \<le> retry ?opts \<longrightarrow>
      fetch_result (failing_network
        (length (requests (snd (run_downloads example_platform failing_network ?opts
             (js ''/out/images'') [] empty_world))) + (k - 1)) (dl_url ?d))
      = Inl ((\<lambda>k. js ''HTTP 500: Internal Server Error'') k)"
    by (simp add: f)
  have up: "[Suc 0..<4] = [Suc 0, 2, 3]" by (simp add: upt_conv_Cons)
  note T = failed_download_recorded [where e = "\<lambda>k. js ''HTTP 500: Internal Server Error''"
      and d = ?d and before = "[]" and after = "[]" and w = empty_world and opts = ?opts
      and pf = example_platform and net = failing_network and imagesDir = "js ''/out/images''"
      and this = "new_ImageDownloader ?opts" and posts = "[]" and outDir = "js ''/out''"
      and ?w0.0 = empty_world, OF hyp, THEN conjunct1]
  show ?thesis
    using T r f [of 0] by (simp add: up empty_world_def)
qed

text \<open>
  C4. With downloading disabled or in a dry run, \<open>downloadAllImages\<close> returns the
  empty mapping and leaves the downloader and the world as they were: no request is
  made, nothing is awaited or written, and the ledger, empty from the constructor on,
  stays empty.
\<close>

theorem download_skipped:
  assumes "\<not> downloadImages opts \<or> dryRun opts"
  shows "downloadAllImages pf net (new_ImageDownloader opts) posts outDir w
       = (Map.empty, new_ImageDownloader opts, w)
     \<and> getDownloadResults (new_ImageDownloader opts) = []
     \<and> getDownloadResults (fst (snd (downloadAllImages pf net (new_ImageDownloader opts) posts outDir w))) = []
     \<and> events (snd (snd (downloadAllImages pf net (new_ImageDownloader opts) posts outDir w)))
       = events w
     \<and> (options this = opts \<longrightarrow>
          downloadAllImages pf net this posts outDir w = (Map.empty, this, w))"
  using assms
  by (auto simp: downloadAllImages_def new_ImageDownloader_def getDownloadResults_def)

theorem download_skipped_witness:
  "\<not> downloadImages (example_options ''/out'')
   \<and> downloadAllImages example_platform hello_network (new_ImageDownloader (example_options ''/out''))
        [example_image_post] (js ''/out'') empty_world
     = (Map.empty, new_ImageDownloader (example_options ''/out''), empty_world)
   \<and> getDownloadResults (fst (snd (downloadAllImages example_platform hello_network
        (new_ImageDownloader (example_options ''/out'')) [example_image_post] (js ''/out'')
        empty_world))) = []
   \<and> events (snd (snd (downloadAllImages example_platform hello_network
        (new_ImageDownloader (example_options ''/out'')) [example_image_post] (js ''/out'')
        empty_world))) = []
   \<and> dryRun ((example_options ''/out'')\<lparr>downloadImages := True, dryRun := True\<rparr>)
   \<and> downloadAllImages example_platform hello_network
        (new_ImageDownloader ((example_options ''/out'')\<lparr>downloadImages := True, dryRun := True\<rparr>))
        [example_image_post] (js ''/out'') empty_world
     = (Map.empty,
        new_ImageDownloader ((example_options ''/out'')\<lparr>downloadImages := True, dryRun := True\<rparr>),
        empty_world)"
proof -
  have off: "\<not> downloadImages (example_options ''/out'')"
    by (simp add: example_options_def)
  have dry: "dryRun ((example_options ''/out'')\<lparr>downloadImages := True, dryRun := True\<rparr>)"
    by simp
  have e: "events empty_world = []" by (simp add: empty_world_def)
  note A = download_skipped [of "example_options ''/out''" example_platform hello_network
      "[example_image_post]" "js ''/out''" empty_world "new_ImageDownloader (example_options ''/out'')",
      OF disjI1 [OF off]]
  note B = download_skipped [of "(example_options ''/out'')\<lparr>downloadImages := True, dryRun := True\<rparr>"
      example_platform hello_network "[example_image_post]" "js ''/out''" empty_world
      "new_ImageDownloader (example_options ''/out'')", OF disjI2 [OF dry]]
  show ?thesis
    using A B off dry e by simp
qed

section \<open>File names of downloaded images\<close>

lemma make_directories_kept:
  "files q \<noteq> None \<Longrightarrow> fold make_directory ds files q = files q"
  by (induction ds arbitrary: files) (auto simp: make_directory_def)

lemma make_directories_file:
  "fold make_directory ds files q = Some (File b) \<longleftrightarrow> files q = Some (File b)"
  by (induction ds arbitrary: files) (simp_all add: make_directory_def)

lemma make_directories_made: "fold make_directory (ds @ [p]) files p \<noteq> None"
  by (simp add: make_directory_def)

lemma mkdirSync_exists: "existsSync (mkdirSync pf w p) p"
  by (simp add: existsSync_def mkdirSync_def make_directory_def)

lemma mkdirSync_file: "fs (mkdirSync pf w p) q = Some (File b) \<longleftrightarrow> fs w q = Some (File b)"
  by (simp add: mkdirSync_def make_directories_file del: fold_append)

lemma save_image_path:
  "fst (save_image pf postSlug u ty imagesDir buffer w)
     = js ''images/'' @ postSlug @ js ''/'' @ (if ty = Cover then js ''cover'' else js ''image'')
         @ js ''-'' @ take 8 (md5_hex pf buffer) @ getFileExtensionFromUrl pf u"
  by (simp add: save_image_def Let_def generateImageHash_def)

lemma save_image_fs:
  "fs (snd (save_image pf postSlug u ty imagesDir buffer w))
     = (fs (if \<not> existsSync w (createSafePath pf [imagesDir, postSlug])
            then mkdirSync pf w (createSafePath pf [imagesDir, postSlug]) else w))
       (createSafePath pf [createSafePath pf [imagesDir, postSlug],
           (if ty = Cover then js ''cover'' else js ''image'') @ js ''-''
             @ take 8 (md5_hex pf buffer) @ getFileExtensionFromUrl pf u] \<mapsto> File buffer)"
  by (simp add: save_image_def Let_def generateImageHash_def writeFileSync_def)

lemma save_image_written:
  "fs (snd (save_image pf postSlug u ty imagesDir buffer w))
     (createSafePath pf [createSafePath pf [imagesDir, postSlug],
           (if ty = Cover then js ''cover'' else js ''image'') @ js ''-''
             @ take 8 (md5_hex pf buffer) @ getFileExtensionFromUrl pf u]) = Some (File buffer)"
  by (simp only: save_image_fs) simp

lemma save_image_keeps:
  assumes "fs w q = Some (File b)"
    and "q \<noteq> createSafePath pf [createSafePath pf [imagesDir, postSlug],
           (if ty = Cover then js ''cover'' else js ''image'') @ js ''-''
             @ take 8 (md5_hex pf buffer) @ getFileExtensionFromUrl pf u]"
  shows "fs (snd (save_image pf postSlug u ty imagesDir buffer w)) q = Some (File b)"
  using assms by (simp only: save_image_fs) (simp add: mkdirSync_file)

lemma save_image_directory:
  "existsSync (snd (save_image pf postSlug u ty imagesDir buffer w))
     (createSafePath pf [imagesDir, postSlug])"
proof -
  have "existsSync (if \<not> existsSync w (createSafePath pf [imagesDir, postSlug])
            then mkdirSync pf w (createSafePath pf [imagesDir, postSlug]) else w)
          (createSafePath pf [imagesDir, postSlug])"
    by (simp add: mkdirSync_exists)
  then show ?thesis
    unfolding existsSync_def save_image_fs by simp
qed

lemma save_image_again:
  assumes "fs v = fs (snd (save_image pf postSlug u ty imagesDir buffer w))"
  shows "fs (snd (save_image pf postSlug u ty imagesDir buffer v)) = fs v"
proof -
  have "existsSync v (createSafePath pf [imagesDir, postSlug])"
    using save_image_directory [of pf postSlug u ty imagesDir buffer w]
    by (simp add: existsSync_def assms)
  moreover have "fs v (createSafePath pf [createSafePath pf [imagesDir, postSlug],
           (if ty = Cover then js ''cover'' else js ''image'') @ js ''-''
             @ take 8 (md5_hex pf buffer) @ getFileExtensionFromUrl pf u]) = Some (File buffer)"
    unfolding assms by (rule save_image_written)
  ultimately show ?thesis
    unfolding save_image_fs [of pf postSlug u ty imagesDir buffer v]
    by (simp add: fun_upd_idem)
qed

lemma save_image_cong:
  assumes "fs v = fs w"
  shows "fst (save_image pf postSlug u ty imagesDir buffer v)
       = fst (save_image pf postSlug u ty imagesDir buffer w)"
    and "fs (snd (save_image pf postSlug u ty imagesDir buffer v))
       = fs (snd (save_image pf postSlug u ty imagesDir buffer w))"
  unfolding save_image_path save_image_fs existsSync_def mkdirSync_def using assms by simp_all

lemma attempts_success:
  assumes "\<forall>n b'. fetch_result (net n u) = Inr b' \<longrightarrow> b' = b"
    and "\<not> success result"
    and "download_attempts pf net opts postSlug u ty imagesDir result attempt lastError w = (r, w')"
    and "success r"
  shows "localPath r = Some (fst (save_image pf postSlug u ty imagesDir b w))
     \<and> fs w' = fs (snd (save_image pf postSlug u ty imagesDir b w))"
  using assms
proof (induction pf net opts postSlug u ty imagesDir result attempt lastError w
    rule: download_attempts.induct)
  case (1 pf net opts postSlug u ty imagesDir result attempt lastError w)
  show ?case
  proof (cases "attempt \<le> retry opts")
    case False
    with "1.prems"(3) have "r = result\<lparr>error := Some lastError\<rparr>"
      by (subst (asm) download_attempts.simps) simp
    with "1.prems"(2,4) show ?thesis by simp
  next
    case True
    let ?w1 = "w\<lparr>events := events w @ [Fetch u]\<rparr>"
    have f: "fetch_image net u w = (fetch_result (net (length (requests w)) u), ?w1)"
      by (simp add: fetch_image_def)
    show ?thesis
    proof (cases "fetch_result (net (length (requests w)) u)")
      case (Inr buffer)
      then have b: "buffer = b" using "1.prems"(1) by blast
      from "1.prems"(3) True f Inr b
      have "(r, w') = (result\<lparr>success := True,
            localPath := Some (fst (save_image pf postSlug u ty imagesDir b ?w1))\<rparr>,
          snd (save_image pf postSlug u ty imagesDir b ?w1))"
        by (subst (asm) download_attempts.simps) (simp add: case_prod_unfold)
      then have "localPath r = Some (fst (save_image pf postSlug u ty imagesDir b ?w1))"
        and "fs w' = fs (snd (save_image pf postSlug u ty imagesDir b ?w1))"
        by simp_all
      moreover have "fs ?w1 = fs w" by simp
      note save_image_cong [OF this, of pf postSlug u ty imagesDir b]
      ultimately show ?thesis
        by simp
    next
      case (Inl msg)
      let ?w2 = "if attempt = retry opts then ?w1
                 else ?w1\<lparr>events := events ?w1 @ [Sleep (2 ^ attempt * 1000)]\<rparr>"
      from "1.prems"(3) True f Inl
      have rec: "download_attempts pf net opts postSlug u ty imagesDir result (attempt + 1) msg ?w2
          = (r, w')"
        by (subst (asm) download_attempts.simps) simp
      have "localPath r = Some (fst (save_image pf postSlug u ty imagesDir b ?w2))
          \<and> fs w' = fs (snd (save_image pf postSlug u ty imagesDir b ?w2))"
        using "1.IH" [OF True f [symmetric, unfolded Inl] refl "1.prems"(1,2) rec "1.prems"(4)] .
      moreover have "fs ?w2 = fs w" by simp
      note save_image_cong [OF this, of pf postSlug u ty imagesDir b]
      ultimately show ?thesis
        by simp
    qed
  qed
qed

lemma downloadSingleImage_success:
  assumes "\<forall>n b'. fetch_result (net n u) = Inr b' \<longrightarrow> b' = b"
    and "downloadSingleImage pf net opts pId postSlug u ty imagesDir w = (r, w')"
    and "success r"
  shows "localPath r = Some (fst (save_image pf postSlug u ty imagesDir b w))
     \<and> fs w' = fs (snd (save_image pf postSlug u ty imagesDir b w))"
  using attempts_success [OF assms(1) _ assms(2) [unfolded downloadSingleImage_def] assms(3)]
  by simp


lemma role_prefix_differs:
  "js ''cover'' @ x \<noteq> js ''image'' @ y"
  by (simp add: js_def)

lemma extract_nonempty: "u \<in> set (extractInlineImageUrls c) \<Longrightarrow> c \<noteq> []"
  by (auto simp: extractInlineImageUrls_def unique_def)

lemma extension_chars:
  "0x2F \<notin> set (getFileExtensionFromUrl pf u) \<and> 0x5C \<notin> set (getFileExtensionFromUrl pf u)"
proof -
  have "getFileExtensionFromUrl pf u \<in> set validExts"
    by (auto simp: getFileExtensionFromUrl_def Let_def validExts_def split: option.splits)
  then show ?thesis by (auto simp: validExts_def js_def)
qed

lemma image_name_plain:
  assumes "list_all hex_char (md5_hex pf b)"
  shows "plain_name ((if ty = Cover then js ''cover'' else js ''image'') @ js ''-''
           @ take 8 (md5_hex pf b) @ getFileExtensionFromUrl pf u)"
proof -
  have "\<forall>c \<in> set (take 8 (md5_hex pf b)). hex_char c"
    using assms by (auto simp: list_all_iff dest: in_set_takeD)
  then have "0x2F \<notin> set (take 8 (md5_hex pf b))" "0x5C \<notin> set (take 8 (md5_hex pf b))"
    by (auto simp: hex_char_def)
  then show ?thesis
    using extension_chars [of pf u] by (auto simp: plain_name_def js_def)
qed


text \<open>
  C1, as the code has it. Let the server answer every successful fetch of a URL with the
  same bytes. Two downloads of the URL for one post that both succeed, one after the
  other, return the paths \<open>images/<slug>/<cover|image>-<first 8 digits of the MD5 of the
  bytes><extension>\<close>, and each leaves its file with the bytes in the post's directory.
  For the same role the two paths are equal and the second download leaves the files as
  they are: the file is overwritten with the same bytes. For different roles the names
  differ in the prefix; when the digest is hexadecimal and \<open>path.join\<close> keeps two
  different file names of one directory apart, both files are on disk after the second
  download, at different paths. A URL that is both the cover and an inline image of a
  post gives one cover download and one inline download.
\<close>

theorem same_content_same_file:
  fixes pf :: platform and net :: network and opts :: ExportOptions
    and pId postSlug u imagesDir :: jsstring and b :: bytes and ty1 ty2 :: image_type
    and w w1 w2 :: world and r1 r2 :: ImageDownloadResult
    and post :: WixBlogPost and img :: image_t and c :: jsstring
  defines "name \<equiv> \<lambda>ty. (if ty = Cover then js ''cover'' else js ''image'') @ js ''-''
      @ take 8 (md5_hex pf b) @ getFileExtensionFromUrl pf u"
  defines "postDir \<equiv> createSafePath pf [imagesDir, postSlug]"
  assumes same: "\<forall>n b'. fetch_result (net n u) = Inr b' \<longrightarrow> b' = b"
    and first: "downloadSingleImage pf net opts pId postSlug u ty1 imagesDir w = (r1, w1)"
      "success r1"
    and second: "downloadSingleImage pf net opts pId postSlug u ty2 imagesDir w1 = (r2, w2)"
      "success r2"
  shows "localPath r1 = Some (js ''images/'' @ postSlug @ js ''/'' @ name ty1)
     \<and> localPath r2 = Some (js ''images/'' @ postSlug @ js ''/'' @ name ty2)
     \<and> fs w1 (createSafePath pf [postDir, name ty1]) = Some (File b)
     \<and> fs w2 (createSafePath pf [postDir, name ty2]) = Some (File b)
     \<and> (ty1 = ty2 \<longrightarrow> localPath r2 = localPath r1 \<and> fs w2 = fs w1)
     \<and> (ty1 \<noteq> ty2 \<longrightarrow> localPath r2 \<noteq> localPath r1 \<and> name ty1 \<noteq> name ty2)
     \<and> (ty1 \<noteq> ty2 \<and> list_all hex_char (md5_hex pf b)
          \<and> (\<forall>d f g. plain_name f \<and> plain_name g
                 \<and> createSafePath pf [d, f] = createSafePath pf [d, g] \<longrightarrow> f = g)
        \<longrightarrow> createSafePath pf [postDir, name ty1] \<noteq> createSafePath pf [postDir, name ty2]
            \<and> fs w2 (createSafePath pf [postDir, name ty1]) = Some (File b)
            \<and> fs w2 (createSafePath pf [postDir, name ty2]) = Some (File b))
     \<and> (cover_image post = Some img \<and> image_url img = u \<and> u \<noteq> [] \<and> isValidImageUrl pf u
          \<and> contentText post = Some c \<and> u \<in> set (extractInlineImageUrls c)
        \<longrightarrow> \<lparr>dl_postId = pid post,
               dl_postSlug = sanitizeFilename pf (or_else (Some (slug post)) (pid post)),
               dl_url = u, dl_type = Cover\<rparr> \<in> set (post_downloads pf post)
            \<and> \<lparr>dl_postId = pid post,
               dl_postSlug = sanitizeFilename pf (or_else (Some (slug post)) (pid post)),
               dl_url = u, dl_type = Inline\<rparr> \<in> set (post_downloads pf post))"
proof -
  note s1 = downloadSingleImage_success [OF same first]
  note s2 = downloadSingleImage_success [OF same second]
  have p1: "localPath r1 = Some (js ''images/'' @ postSlug @ js ''/'' @ name ty1)"
    using s1 by (simp only: save_image_path name_def)
  have p2: "localPath r2 = Some (js ''images/'' @ postSlug @ js ''/'' @ name ty2)"
    using s2 by (simp only: save_image_path name_def)
  have written1: "fs w1 (createSafePath pf [postDir, name ty1]) = Some (File b)"
    using s1 save_image_written [of pf postSlug u ty1 imagesDir b w]
    by (simp only: name_def postDir_def)
  have written2: "fs w2 (createSafePath pf [postDir, name ty2]) = Some (File b)"
    using s2 save_image_written [of pf postSlug u ty2 imagesDir b w1]
    by (simp only: name_def postDir_def)
  have idem: "localPath r2 = localPath r1 \<and> fs w2 = fs w1" if "ty1 = ty2"
  proof -
    have "fs w2 = fs (snd (save_image pf postSlug u ty1 imagesDir b w1))"
      using s2 that by simp
    also have "\<dots> = fs w1"
      using s1 by (intro save_image_again) simp
    finally show ?thesis using p1 p2 that by simp
  qed
  have names: "name ty1 \<noteq> name ty2" if "ty1 \<noteq> ty2"
  proof -
    from that have "(ty1 = Cover \<and> ty2 = Inline) \<or> (ty1 = Inline \<and> ty2 = Cover)"
      by (cases ty1; cases ty2) simp_all
    then show ?thesis
      using role_prefix_differs role_prefix_differs [symmetric] by (auto simp: name_def)
  qed
  have differ: "localPath r2 \<noteq> localPath r1 \<and> name ty1 \<noteq> name ty2" if "ty1 \<noteq> ty2"
    using names [OF that] p1 p2 by simp
  have both: "createSafePath pf [postDir, name ty1] \<noteq> createSafePath pf [postDir, name ty2]
            \<and> fs w2 (createSafePath pf [postDir, name ty1]) = Some (File b)
            \<and> fs w2 (createSafePath pf [postDir, name ty2]) = Some (File b)"
    if "ty1 \<noteq> ty2 \<and> list_all hex_char (md5_hex pf b)
          \<and> (\<forall>d f g. plain_name f \<and> plain_name g
                 \<and> createSafePath pf [d, f] = createSafePath pf [d, g] \<longrightarrow> f = g)"
  proof -
    from that have ne: "ty1 \<noteq> ty2" and hex: "list_all hex_char (md5_hex pf b)"
      and inj: "\<And>d f g. plain_name f \<Longrightarrow> plain_name g
                 \<Longrightarrow> createSafePath pf [d, f] = createSafePath pf [d, g] \<Longrightarrow> f = g"
      by blast+
    have plain: "plain_name (name ty)" for ty
      unfolding name_def by (rule image_name_plain [OF hex])
    have paths: "createSafePath pf [postDir, name ty1] \<noteq> createSafePath pf [postDir, name ty2]"
      using inj [OF plain plain, of postDir ty1 ty2] names [OF ne] by blast
    have "fs (snd (save_image pf postSlug u ty2 imagesDir b w1))
        (createSafePath pf [postDir, name ty1]) = Some (File b)"
      using save_image_keeps [where w = w1 and pf = pf and imagesDir = imagesDir
          and postSlug = postSlug and ty = ty2 and buffer = b and u = u, OF written1] paths
      unfolding name_def postDir_def by blast
    then have "fs w2 (createSafePath pf [postDir, name ty1]) = Some (File b)"
      using s2 by simp
    with paths written2 show ?thesis by simp
  qed
  have tasks: "\<lparr>dl_postId = pid post,
               dl_postSlug = sanitizeFilename pf (or_else (Some (slug post)) (pid post)),
               dl_url = u, dl_type = Cover\<rparr> \<in> set (post_downloads pf post)
            \<and> \<lparr>dl_postId = pid post,
               dl_postSlug = sanitizeFilename pf (or_else (Some (slug post)) (pid post)),
               dl_url = u, dl_type = Inline\<rparr> \<in> set (post_downloads pf post)"
    if "cover_image post = Some img \<and> image_url img = u \<and> u \<noteq> [] \<and> isValidImageUrl pf u
          \<and> contentText post = Some c \<and> u \<in> set (extractInlineImageUrls c)"
  proof -
    from that have "c \<noteq> []" using extract_nonempty by blast
    with that show ?thesis
      by (simp add: post_downloads_def Let_def image_iff del: or_else.simps)
  qed
  from p1 p2 written1 written2 idem differ both tasks show ?thesis by blast
qed

lemma first_attempt_success:
  assumes "1 \<le> retry opts" and "fetch_result (net (length (requests w)) u) = Inr buffer"
  shows "downloadSingleImage pf net opts pId postSlug u ty imagesDir w
     = (\<lparr>postId = pId, originalUrl = u,
          localPath = Some (fst (save_image pf postSlug u ty imagesDir buffer
             (w\<lparr>events := events w @ [Fetch u]\<rparr>))),
          success = True, error = None\<rparr>,
        snd (save_image pf postSlug u ty imagesDir buffer (w\<lparr>events := events w @ [Fetch u]\<rparr>)))"
  unfolding downloadSingleImage_def using assms
  by (subst download_attempts.simps) (simp add: fetch_image_def case_prod_unfold)

lemma example_slug:
  "sanitizeFilename example_platform (js ''test-blog-post'') = js ''test-blog-post''"
  by (simp add: sanitizeFilename_def example_platform_def js_def is_space_def slug_char_def)

lemma example_urls:
  "extractInlineImageUrls (js ''Intro ![Test image](https://example.com/test-image.jpg) end'')
     = [js ''https://example.com/test-image.jpg'']"
  by (simp add: extractInlineImageUrls_def unique_def match_inline_def match_url_def
      strip_prefix_def js_def url_char_def is_space_def is_line_terminator_def)

lemma example_url_valid:
  "isValidImageUrl example_platform (js ''https://example.com/test-image.jpg'')"
  by (simp add: isValidImageUrl_def example_platform_def example_parse_url_def strip_prefix_def
      js_def)

lemma example_extension:
  "getFileExtensionFromUrl example_platform (js ''https://example.com/test-image.jpg'') = js ''.jpg''"
  by (simp add: getFileExtensionFromUrl_def example_platform_def example_parse_url_def
      example_extname_def strip_prefix_def validExts_def js_def)

lemma example_hash: "take 8 (md5_hex example_platform (js ''hello'')) = js ''5d41402a''"
  by (simp add: example_platform_def example_md5_hex_def js_def)

lemma example_downloads:
  "post_downloads example_platform example_image_post
     = [\<lparr>dl_postId = js ''test-id'', dl_postSlug = js ''test-blog-post'',
          dl_url = js ''https://example.com/test-image.jpg'', dl_type = Cover\<rparr>,
        \<lparr>dl_postId = js ''test-id'', dl_postSlug = js ''test-blog-post'',
          dl_url = js ''https://example.com/test-image.jpg'', dl_type = Inline\<rparr>]"
proof -
  have "js ''test-blog-post'' \<noteq> []" "js ''https://example.com/test-image.jpg'' \<noteq> []"
    "js ''Intro ![Test image](https://example.com/test-image.jpg) end'' \<noteq> []"
    by (simp_all add: js_def)
  then show ?thesis
    by (simp add: post_downloads_def example_image_post_def example_post_def cover_image_def
        example_slug example_urls example_url_valid Let_def)
qed

lemma example_paths:
  "createSafePath example_platform [js ''/out'', js ''images''] = js ''/out/images''"
  "createSafePath example_platform [js ''/out/images'', js ''test-blog-post'']
     = js ''/out/images/test-blog-post''"
  "createSafePath example_platform [js ''/out/images/test-blog-post'', js ''cover-5d41402a.jpg'']
     = js ''/out/images/test-blog-post/cover-5d41402a.jpg''"
  "createSafePath example_platform [js ''/out/images/test-blog-post'', js ''image-5d41402a.jpg'']
     = js ''/out/images/test-blog-post/image-5d41402a.jpg''"
  by (simp_all add: createSafePath_def example_platform_def js_def)



lemma example_parents_of:
  "path_parents example_platform (js ''/out/images'') = [js ''/out'']"
  "path_parents example_platform (js ''/out/images/test-blog-post'')
     = [js ''/out'', js ''/out/images'']"
  by (simp_all add: example_platform_def example_parents_def js_def)


lemma example_directory:
  assumes "fs w (js ''/out'') \<noteq> None" and "fs w (js ''/out/images'') \<noteq> None"
    and "fs w (js ''/out/images/test-blog-post'') = None"
  shows "fs (mkdirSync example_platform w (js ''/out/images/test-blog-post''))
       = (fs w)(js ''/out/images/test-blog-post'' \<mapsto> Directory)"
  using assms by (auto simp: mkdirSync_def example_parents_of make_directory_def)

lemma example_cover_download:
  assumes "fs w (js ''/out'') \<noteq> None" and "fs w (js ''/out/images'') \<noteq> None"
    and "fs w (js ''/out/images/test-blog-post'') = None"
  shows "downloadSingleImage example_platform hello_network
       ((example_options ''/out'')\<lparr>downloadImages := True\<rparr>) (js ''test-id'')
       (js ''test-blog-post'') (js ''https://example.com/test-image.jpg'') Cover (js ''/out/images'') w
     = (\<lparr>postId = js ''test-id'', originalUrl = js ''https://example.com/test-image.jpg'',
          localPath = Some (js ''images/test-blog-post/cover-5d41402a.jpg''),
          success = True, error = None\<rparr>,
        w\<lparr>fs := (fs w)(js ''/out/images/test-blog-post'' \<mapsto> Directory,
                  js ''/out/images/test-blog-post/cover-5d41402a.jpg'' \<mapsto> File (js ''hello'')),
          events := events w @ [Fetch (js ''https://example.com/test-image.jpg'')]\<rparr>)"
proof -
  let ?w' = "w\<lparr>events := events w @ [Fetch (js ''https://example.com/test-image.jpg'')]\<rparr>"
  have r: "1 \<le> retry ((example_options ''/out'')\<lparr>downloadImages := True\<rparr>)"
    by (simp add: example_options_def)
  have f: "fetch_result (hello_network (length (requests w)) (js ''https://example.com/test-image.jpg''))
      = Inr (js ''hello'')"
    by (simp add: fetch_result_def hello_network_def js_def)
  have name: "js ''cover'' @ js ''-'' @ js ''5d41402a'' @ js ''.jpg'' = js ''cover-5d41402a.jpg''"
    "js ''images/'' @ js ''test-blog-post'' @ js ''/'' @ js ''cover-5d41402a.jpg''
       = js ''images/test-blog-post/cover-5d41402a.jpg''"
    by (simp_all add: js_def)
  have dir: "fs (mkdirSync example_platform ?w' (js ''/out/images/test-blog-post''))
       = (fs w)(js ''/out/images/test-blog-post'' \<mapsto> Directory)"
    using example_directory [of ?w'] assms by simp
  have ev: "events (mkdirSync example_platform ?w' (js ''/out/images/test-blog-post''))
       = events w @ [Fetch (js ''https://example.com/test-image.jpg'')]"
    by (simp add: mkdirSync_def)
  have "snd (save_image example_platform (js ''test-blog-post'')
          (js ''https://example.com/test-image.jpg'') Cover (js ''/out/images'') (js ''hello'') ?w')
      = w\<lparr>fs := (fs w)(js ''/out/images/test-blog-post'' \<mapsto> Directory,
                  js ''/out/images/test-blog-post/cover-5d41402a.jpg'' \<mapsto> File (js ''hello'')),
          events := events w @ [Fetch (js ''https://example.com/test-image.jpg'')]\<rparr>"
    using assms(3)
    by (simp add: save_image_def Let_def generateImageHash_def example_hash example_extension
        example_paths name existsSync_def writeFileSync_def dir ev)
  then show ?thesis
    unfolding first_attempt_success [where net = hello_network and w = w
        and u = "js ''https://example.com/test-image.jpg''", OF r f]
    by (simp add: save_image_path example_hash example_extension name)
qed

lemma example_inline_download:
  assumes "fs w (js ''/out/images/test-blog-post'') = Some Directory"
  shows "downloadSingleImage example_platform hello_network
       ((example_options ''/out'')\<lparr>downloadImages := True\<rparr>) (js ''test-id'')
       (js ''test-blog-post'') (js ''https://example.com/test-image.jpg'') Inline (js ''/out/images'') w
     = (\<lparr>postId = js ''test-id'', originalUrl = js ''https://example.com/test-image.jpg'',
          localPath = Some (js ''images/test-blog-post/image-5d41402a.jpg''),
          success = True, error = None\<rparr>,
        w\<lparr>fs := (fs w)(js ''/out/images/test-blog-post/image-5d41402a.jpg'' \<mapsto> File (js ''hello'')),
          events := events w @ [Fetch (js ''https://example.com/test-image.jpg'')]\<rparr>)"
proof -
  have r: "1 \<le> retry ((example_options ''/out'')\<lparr>downloadImages := True\<rparr>)"
    by (simp add: example_options_def)
  have f: "fetch_result (hello_network (length (requests w)) (js ''https://example.com/test-image.jpg''))
      = Inr (js ''hello'')"
    by (simp add: fetch_result_def hello_network_def js_def)
  have name: "js ''image'' @ js ''-'' @ js ''5d41402a'' @ js ''.jpg'' = js ''image-5d41402a.jpg''"
    "js ''images/'' @ js ''test-blog-post'' @ js ''/'' @ js ''image-5d41402a.jpg''
       = js ''images/test-blog-post/image-5d41402a.jpg''"
    by (simp_all add: js_def)
  show ?thesis
    unfolding first_attempt_success [where net = hello_network and w = w
        and u = "js ''https://example.com/test-image.jpg''", OF r f]
    using assms
    by (simp add: save_image_def Let_def generateImageHash_def example_hash example_extension
        example_paths name existsSync_def writeFileSync_def)
qed

lemma hello_served:
  "\<forall>n b'. fetch_result (hello_network n u) = Inr b' \<longrightarrow> b' = js ''hello''"
  by (simp add: fetch_result_def hello_network_def js_def)

lemma example_names_kept:
  "\<forall>d f g. plain_name f \<and> plain_name g
      \<and> createSafePath example_platform [d, f] = createSafePath example_platform [d, g] \<longrightarrow> f = g"
  by (simp add: createSafePath_def example_platform_def)

lemma example_digest: "list_all hex_char (md5_hex example_platform (js ''hello''))"
  by (simp add: example_platform_def example_md5_hex_def js_def hex_char_def)


theorem same_content_same_file_witness:
  "fst (downloadSingleImage example_platform hello_network
       ((example_options ''/out'')\<lparr>downloadImages := True\<rparr>) (js ''test-id'')
       (js ''test-blog-post'') (js ''https://example.com/test-image.jpg'') Cover (js ''/out/images'')
       (empty_world\<lparr>fs := [js ''/out'' \<mapsto> Directory, js ''/out/images'' \<mapsto> Directory]\<rparr>))
     = \<lparr>postId = js ''test-id'', originalUrl = js ''https://example.com/test-image.jpg'',
         localPath = Some (js ''images/test-blog-post/cover-5d41402a.jpg''),
         success = True, error = None\<rparr>
   \<and> fst (downloadSingleImage example_platform hello_network
       ((example_options ''/out'')\<lparr>downloadImages := True\<rparr>) (js ''test-id'')
       (js ''test-blog-post'') (js ''https://example.com/test-image.jpg'') Inline (js ''/out/images'')
       (snd (downloadSingleImage example_platform hello_network
         ((example_options ''/out'')\<lparr>downloadImages := True\<rparr>) (js ''test-id'')
         (js ''test-blog-post'') (js ''https://example.com/test-image.jpg'') Cover (js ''/out/images'')
         (empty_world\<lparr>fs := [js ''/out'' \<mapsto> Directory, js ''/out/images'' \<mapsto> Directory]\<rparr>))))
     = \<lparr>postId = js ''test-id'', originalUrl = js ''https://example.com/test-image.jpg'',
         localPath = Some (js ''images/test-blog-post/image-5d41402a.jpg''),
         success = True, error = None\<rparr>
   \<and> Some (js ''images/test-blog-post/image-5d41402a.jpg'')
       \<noteq> Some (js ''images/test-blog-post/cover-5d41402a.jpg'')
   \<and> js ''/out/images/test-blog-post/cover-5d41402a.jpg''
       \<noteq> js ''/out/images/test-blog-post/image-5d41402a.jpg''
   \<and> fs (snd (downloadSingleImage example_platform hello_network
       ((example_options ''/out'')\<lparr>downloadImages := True\<rparr>) (js ''test-id'')
       (js ''test-blog-post'') (js ''https://example.com/test-image.jpg'') Inline (js ''/out/images'')
       (snd (downloadSingleImage example_platform hello_network
         ((example_options ''/out'')\<lparr>downloadImages := True\<rparr>) (js ''test-id'')
         (js ''test-blog-post'') (js ''https://example.com/test-image.jpg'') Cover (js ''/out/images'')
         (empty_world\<lparr>fs := [js ''/out'' \<mapsto> Directory, js ''/out/images'' \<mapsto> Directory]\<rparr>)))))
       (js ''/out/images/test-blog-post/cover-5d41402a.jpg'') = Some (File (js ''hello''))
   \<and> fs (snd (downloadSingleImage example_platform hello_network
       ((example_options ''/out'')\<lparr>downloadImages := True\<rparr>) (js ''test-id'')
       (js ''test-blog-post'') (js ''https://example.com/test-image.jpg'') Inline (js ''/out/images'')
       (snd (downloadSingleImage example_platform hello_network
         ((example_options ''/out'')\<lparr>downloadImages := True\<rparr>) (js ''test-id'')
         (js ''test-blog-post'') (js ''https://example.com/test-image.jpg'') Cover (js ''/out/images'')
         (empty_world\<lparr>fs := [js ''/out'' \<mapsto> Directory, js ''/out/images'' \<mapsto> Directory]\<rparr>)))))
       (js ''/out/images/test-blog-post/image-5d41402a.jpg'') = Some (File (js ''hello''))
   \<and> fs (snd (downloadSingleImage example_platform hello_network
       ((example_options ''/out'')\<lparr>downloadImages := True\<rparr>) (js ''test-id'')
       (js ''test-blog-post'') (js ''https://example.com/test-image.jpg'') Inline (js ''/out/images'')
       (snd (downloadSingleImage example_platform hello_network
         ((example_options ''/out'')\<lparr>downloadImages := True\<rparr>) (js ''test-id'')
         (js ''test-blog-post'') (js ''https://example.com/test-image.jpg'') Inline (js ''/out/images'')
         (empty_world\<lparr>fs := [js ''/out/images/test-blog-post'' \<mapsto> Directory]\<rparr>)))))
     = [js ''/out/images/test-blog-post'' \<mapsto> Directory,
        js ''/out/images/test-blog-post/image-5d41402a.jpg'' \<mapsto> File (js ''hello'')]"
proof -
  let ?opts = "(example_options ''/out'')\<lparr>downloadImages := True\<rparr>"
  let ?u = "js ''https://example.com/test-image.jpg''"
  let ?dir = "js ''/out/images/test-blog-post''"
  let ?cover = "js ''/out/images/test-blog-post/cover-5d41402a.jpg''"
  let ?image = "js ''/out/images/test-blog-post/image-5d41402a.jpg''"
  let ?w = "empty_world\<lparr>fs := [js ''/out'' \<mapsto> Directory, js ''/out/images'' \<mapsto> Directory]\<rparr>"
  let ?r1 = "\<lparr>postId = js ''test-id'', originalUrl = ?u,
         localPath = Some (js ''images/test-blog-post/cover-5d41402a.jpg''),
         success = True, error = None\<rparr>"
  let ?r2 = "\<lparr>postId = js ''test-id'', originalUrl = ?u,
         localPath = Some (js ''images/test-blog-post/image-5d41402a.jpg''),
         success = True, error = None\<rparr>"
  let ?w1 = "?w\<lparr>fs := (fs ?w)(?dir \<mapsto> Directory, ?cover \<mapsto> File (js ''hello'')),
          events := events ?w @ [Fetch ?u]\<rparr>"
  let ?w2 = "?w1\<lparr>fs := (fs ?w1)(?image \<mapsto> File (js ''hello'')),
          events := events ?w1 @ [Fetch ?u]\<rparr>"
  have s1: "success ?r1" and s2: "success ?r2" by simp_all
  have ne: "js ''/out'' \<noteq> ?dir" "js ''/out/images'' \<noteq> ?dir" "js ''/out'' \<noteq> js ''/out/images''"
    "?dir \<noteq> ?cover" "?dir \<noteq> ?image"
    by (simp_all add: js_def)
  have there: "fs ?w (js ''/out'') \<noteq> None" "fs ?w (js ''/out/images'') \<noteq> None"
    using ne by simp_all
  have absent: "fs ?w ?dir = None" using ne by (simp add: empty_world_def)
  have d1: "downloadSingleImage example_platform hello_network ?opts (js ''test-id'')
       (js ''test-blog-post'') ?u Cover (js ''/out/images'') ?w = (?r1, ?w1)"
    by (rule example_cover_download [OF there absent])
  have present: "fs ?w1 ?dir = Some Directory" using ne by simp
  have d2: "downloadSingleImage example_platform hello_network ?opts (js ''test-id'')
       (js ''test-blog-post'') ?u Inline (js ''/out/images'') ?w1 = (?r2, ?w2)"
    by (rule example_inline_download [OF present])
  have names: "js ''cover'' @ js ''-'' @ take 8 (md5_hex example_platform (js ''hello''))
        @ getFileExtensionFromUrl example_platform ?u = js ''cover-5d41402a.jpg''"
    "js ''image'' @ js ''-'' @ take 8 (md5_hex example_platform (js ''hello''))
        @ getFileExtensionFromUrl example_platform ?u = js ''image-5d41402a.jpg''"
    by (simp_all add: example_hash example_extension) (simp_all add: js_def)
  note A = same_content_same_file [where pf = example_platform and net = hello_network
      and b = "js ''hello''" and u = ?u and post = example_image_post
      and img = "\<lparr>image_url = ?u, altText = Some (js ''Test image''),
          image_height = Some (Finite 600), image_width = Some (Finite 800)\<rparr>"
      and c = "js ''Intro ![Test image](https://example.com/test-image.jpg) end''",
      OF hello_served d1 s1 d2 s2]
  have differ: "localPath ?r2 \<noteq> localPath ?r1"
    using A [THEN conjunct2, THEN conjunct2, THEN conjunct2, THEN conjunct2, THEN conjunct2,
        THEN conjunct1]
    by simp
  have both: "?cover \<noteq> ?image \<and> fs ?w2 ?cover = Some (File (js ''hello''))
      \<and> fs ?w2 ?image = Some (File (js ''hello''))"
    using A [THEN conjunct2, THEN conjunct2, THEN conjunct2, THEN conjunct2, THEN conjunct2,
        THEN conjunct2, THEN conjunct1] example_digest example_names_kept
    by (simp add: names example_paths)
  let ?start = "empty_world\<lparr>fs := [?dir \<mapsto> Directory]\<rparr>"
  let ?v = "?start\<lparr>fs := (fs ?start)(?image \<mapsto> File (js ''hello'')),
          events := events ?start @ [Fetch ?u]\<rparr>"
  let ?v' = "?v\<lparr>fs := (fs ?v)(?image \<mapsto> File (js ''hello'')),
          events := events ?v @ [Fetch ?u]\<rparr>"
  have pv0: "fs ?start ?dir = Some Directory" by simp
  have pv: "fs ?v ?dir = Some Directory" using ne by simp
  have e1: "downloadSingleImage example_platform hello_network ?opts (js ''test-id'')
       (js ''test-blog-post'') ?u Inline (js ''/out/images'') ?start = (?r2, ?v)"
    by (rule example_inline_download [OF pv0])
  have e2: "downloadSingleImage example_platform hello_network ?opts (js ''test-id'')
       (js ''test-blog-post'') ?u Inline (js ''/out/images'') ?v = (?r2, ?v')"
    by (rule example_inline_download [OF pv])
  note B = same_content_same_file [where pf = example_platform and net = hello_network
      and b = "js ''hello''" and u = ?u and post = example_image_post
      and img = "\<lparr>image_url = ?u, altText = Some (js ''Test image''),
          image_height = Some (Finite 600), image_width = Some (Finite 800)\<rparr>"
      and c = "js ''Intro ![Test image](https://example.com/test-image.jpg) end''",
      OF hello_served e1 s2 e2 s2]
  have "fs ?v' = fs ?v"
    using B [THEN conjunct2, THEN conjunct2, THEN conjunct2, THEN conjunct2, THEN conjunct1]
    by simp
  then have again: "fs (snd (downloadSingleImage example_platform hello_network ?opts (js ''test-id'')
       (js ''test-blog-post'') ?u Inline (js ''/out/images'')
       (snd (downloadSingleImage example_platform hello_network ?opts (js ''test-id'')
       (js ''test-blog-post'') ?u Inline (js ''/out/images'') ?start))))
     = [?dir \<mapsto> Directory, ?image \<mapsto> File (js ''hello'')]"
    unfolding e1 snd_conv e2 by (simp add: empty_world_def)
  show ?thesis
    unfolding d1 fst_conv snd_conv d2 using differ both again by simp
qed

text \<open>
  C1 as stated fails on the post of the integration test with its cover image also
  embedded in the content, the server answering \<open>hello\<close> to every request: the run
  makes two requests, records two results and leaves two files in the post's image
  directory, \<open>cover-5d41402a.jpg\<close> and \<open>image-5d41402a.jpg\<close>.
\<close>

theorem cover_and_inline_two_files:
  "downloadAllImages example_platform hello_network
      (new_ImageDownloader ((example_options ''/out'')\<lparr>downloadImages := True\<rparr>))
      [example_image_post] (js ''/out'') empty_world
     = ([js ''https://example.com/test-image.jpg'' \<mapsto> js ''images/test-blog-post/image-5d41402a.jpg''],
        \<lparr>options = (example_options ''/out'')\<lparr>downloadImages := True\<rparr>,
          downloadResults =
            [\<lparr>postId = js ''test-id'', originalUrl = js ''https://example.com/test-image.jpg'',
               localPath = Some (js ''images/test-blog-post/cover-5d41402a.jpg''),
               success = True, error = None\<rparr>,
             \<lparr>postId = js ''test-id'', originalUrl = js ''https://example.com/test-image.jpg'',
               localPath = Some (js ''images/test-blog-post/image-5d41402a.jpg''),
               success = True, error = None\<rparr>]\<rparr>,
        \<lparr>fs = [js ''/out'' \<mapsto> Directory,
                js ''/out/images'' \<mapsto> Directory,
                js ''/out/images/test-blog-post'' \<mapsto> Directory,
                js ''/out/images/test-blog-post/cover-5d41402a.jpg'' \<mapsto> File (js ''hello''),
                js ''/out/images/test-blog-post/image-5d41402a.jpg'' \<mapsto> File (js ''hello'')],
          events = [Fetch (js ''https://example.com/test-image.jpg''),
                    Fetch (js ''https://example.com/test-image.jpg'')]\<rparr>)
   \<and> js ''/out/images/test-blog-post/cover-5d41402a.jpg''
       \<noteq> js ''/out/images/test-blog-post/image-5d41402a.jpg''"
proof -
  let ?opts = "(example_options ''/out'')\<lparr>downloadImages := True\<rparr>"
  let ?u = "js ''https://example.com/test-image.jpg''"
  let ?dir = "js ''/out/images/test-blog-post''"
  let ?cover = "js ''/out/images/test-blog-post/cover-5d41402a.jpg''"
  let ?image = "js ''/out/images/test-blog-post/image-5d41402a.jpg''"
  let ?w = "\<lparr>fs = [js ''/out'' \<mapsto> Directory, js ''/out/images'' \<mapsto> Directory], events = []\<rparr>"
  let ?w1 = "\<lparr>fs = [js ''/out'' \<mapsto> Directory, js ''/out/images'' \<mapsto> Directory,
                ?dir \<mapsto> Directory, ?cover \<mapsto> File (js ''hello'')], events = [Fetch ?u]\<rparr>"
  let ?w2 = "\<lparr>fs = [js ''/out'' \<mapsto> Directory, js ''/out/images'' \<mapsto> Directory,
                ?dir \<mapsto> Directory, ?cover \<mapsto> File (js ''hello''), ?image \<mapsto> File (js ''hello'')],
          events = [Fetch ?u, Fetch ?u]\<rparr>"
  have ne: "js ''/out'' \<noteq> ?dir" "js ''/out/images'' \<noteq> ?dir" "js ''/out'' \<noteq> js ''/out/images''"
    "?dir \<noteq> ?cover" "?dir \<noteq> ?image" "?cover \<noteq> ?image"
    by (simp_all add: js_def)
  have o: "downloadImages ?opts" "\<not> dryRun ?opts"
    by (simp_all add: example_options_def)
  have there: "fs ?w (js ''/out'') \<noteq> None" "fs ?w (js ''/out/images'') \<noteq> None"
    using ne by simp_all
  have absent: "fs ?w ?dir = None"
    using ne by simp
  have present: "fs ?w1 ?dir = Some Directory" using ne by simp
  have run: "run_downloads example_platform hello_network ?opts (js ''/out/images'')
      (post_downloads example_platform example_image_post) ?w
     = ([\<lparr>postId = js ''test-id'', originalUrl = ?u,
               localPath = Some (js ''images/test-blog-post/cover-5d41402a.jpg''),
               success = True, error = None\<rparr>,
         \<lparr>postId = js ''test-id'', originalUrl = ?u,
               localPath = Some (js ''images/test-blog-post/image-5d41402a.jpg''),
               success = True, error = None\<rparr>],
        ?w2)"
  proof -
    have c1: "downloadSingleImage example_platform hello_network ?opts (js ''test-id'')
        (js ''test-blog-post'') ?u Cover (js ''/out/images'') ?w
      = (\<lparr>postId = js ''test-id'', originalUrl = ?u,
               localPath = Some (js ''images/test-blog-post/cover-5d41402a.jpg''),
               success = True, error = None\<rparr>, ?w1)"
      unfolding example_cover_download [OF there absent] by simp
    have c2: "downloadSingleImage example_platform hello_network ?opts (js ''test-id'')
        (js ''test-blog-post'') ?u Inline (js ''/out/images'') ?w1
      = (\<lparr>postId = js ''test-id'', originalUrl = ?u,
               localPath = Some (js ''images/test-blog-post/image-5d41402a.jpg''),
               success = True, error = None\<rparr>, ?w2)"
      unfolding example_inline_download [OF present] by simp
    show ?thesis
      by (simp add: example_downloads c1 c2)
  qed
  have nonempty: "post_downloads example_platform example_image_post \<noteq> []"
    by (simp add: example_downloads)
  have all: "downloadAllImages example_platform hello_network (new_ImageDownloader ?opts)
      [example_image_post] (js ''/out'') empty_world
     = ([?u \<mapsto> js ''images/test-blog-post/image-5d41402a.jpg''],
        \<lparr>options = ?opts,
          downloadResults =
            [\<lparr>postId = js ''test-id'', originalUrl = ?u,
               localPath = Some (js ''images/test-blog-post/cover-5d41402a.jpg''),
               success = True, error = None\<rparr>,
             \<lparr>postId = js ''test-id'', originalUrl = ?u,
               localPath = Some (js ''images/test-blog-post/image-5d41402a.jpg''),
               success = True, error = None\<rparr>]\<rparr>,
        \<lparr>fs = [js ''/out'' \<mapsto> Directory, js ''/out/images'' \<mapsto> Directory,
                ?dir \<mapsto> Directory, ?cover \<mapsto> File (js ''hello''), ?image \<mapsto> File (js ''hello'')],
          events = [Fetch ?u, Fetch ?u]\<rparr>)"
  proof -
    have start: "(if \<not> existsSync empty_world (js ''/out/images'')
        then mkdirSync example_platform empty_world (js ''/out/images'') else empty_world) = ?w"
      by (simp add: existsSync_def mkdirSync_def empty_world_def example_parents_of
          make_directory_def ne)
    have "downloadAllImages example_platform hello_network (new_ImageDownloader ?opts)
        [example_image_post] (js ''/out'') empty_world
      = (case run_downloads example_platform hello_network ?opts (js ''/out/images'')
               (post_downloads example_platform example_image_post) ?w of
           (results, w2) \<Rightarrow>
             (fold (\<lambda>r m. if success r \<and> truthy (localPath r)
                           then m(originalUrl r \<mapsto> the (localPath r)) else m)
                results Map.empty,
              (new_ImageDownloader ?opts)\<lparr>downloadResults :=
                 downloadResults (new_ImageDownloader ?opts) @ results\<rparr>,
              w2))"
      unfolding downloadAllImages_def Let_def example_paths start
      using o nonempty by (simp add: new_ImageDownloader_def)
    also have "\<dots> = ([?u \<mapsto> js ''images/test-blog-post/image-5d41402a.jpg''],
        \<lparr>options = ?opts,
          downloadResults =
            [\<lparr>postId = js ''test-id'', originalUrl = ?u,
               localPath = Some (js ''images/test-blog-post/cover-5d41402a.jpg''),
               success = True, error = None\<rparr>,
             \<lparr>postId = js ''test-id'', originalUrl = ?u,
               localPath = Some (js ''images/test-blog-post/image-5d41402a.jpg''),
               success = True, error = None\<rparr>]\<rparr>,
        \<lparr>fs = [js ''/out'' \<mapsto> Directory, js ''/out/images'' \<mapsto> Directory,
                ?dir \<mapsto> Directory, ?cover \<mapsto> File (js ''hello''), ?image \<mapsto> File (js ''hello'')],
          events = [Fetch ?u, Fetch ?u]\<rparr>)"
    proof -
      have "js ''images/test-blog-post/cover-5d41402a.jpg'' \<noteq> []"
        "js ''images/test-blog-post/image-5d41402a.jpg'' \<noteq> []"
        by (simp_all add: js_def)
      then show ?thesis
        unfolding run by (simp add: new_ImageDownloader_def)
    qed
    finally show ?thesis .
  qed
  show ?thesis
    unfolding all using ne(6) by simp
qed

section \<open>JSON export\<close>

lemma tokens_ws: "list_all is_json_ws w \<Longrightarrow> tokens (w @ s) = tokens s"
  by (induction w) simp_all

lemma hex_value_digit: "n < 16 \<Longrightarrow> hex_value (hex_digit n) = Some n"
  by (simp add: hex_value_def hex_digit_def)

lemma hex_digits_value:
  assumes "c < 65536"
  shows "hex_number (c div 4096 mod 16) (c div 256 mod 16) (c div 16 mod 16) (c mod 16) = c"
proof -
  have a: "c div 4096 mod 16 = c div 4096" using assms by simp
  have "c div 4096 = c div 256 div 16" using div_mult2_eq [of c 256 16] by simp
  then have b: "16 * (c div 4096) + c div 256 mod 16 = c div 256"
    using mult_div_mod_eq [of 16 "c div 256"] by simp
  have "c div 256 = c div 16 div 16" using div_mult2_eq [of c 16 16] by simp
  then have c: "16 * (c div 256) + c div 16 mod 16 = c div 16"
    using mult_div_mod_eq [of 16 "c div 16"] by simp
  have d: "16 * (c div 16) + c mod 16 = c"
    using mult_div_mod_eq [of 16 c] by simp
  show ?thesis
    unfolding hex_number_def a using b c d by (simp add: mult.commute)
qed

lemma string_chars_escape:
  assumes "c < 65536"
  shows "string_chars (UnicodeEscape c @ t) = map_option (\<lambda>(s, r). (c # s, r)) (string_chars t)"
proof -
  have d: "c div 4096 mod 16 < 16" "c div 256 mod 16 < 16" "c div 16 mod 16 < 16" "c mod 16 < 16"
    by simp_all
  show ?thesis
    unfolding UnicodeEscape_def
    by (simp add: hex_value_digit [OF d(1)] hex_value_digit [OF d(2)] hex_value_digit [OF d(3)]
        hex_value_digit [OF d(4)] hex_digits_value [OF assms] del: mod_less)
qed

lemma string_chars_unit:
  "string_chars (quote_unit c @ t) = map_option (\<lambda>(s, r). (c # s, r)) (string_chars t)"
proof (cases "c < 0x20 \<or> leading_surrogate c \<or> trailing_surrogate c")
  case True
  then have "c < 65536" by (auto simp: leading_surrogate_def trailing_surrogate_def)
  note e = string_chars_escape [OF this, of t]
  show ?thesis
    unfolding quote_unit_def using True e
    by (auto simp: escaped_def leading_surrogate_def trailing_surrogate_def)
next
  case False
  then show ?thesis
    unfolding quote_unit_def by (simp add: escaped_def)
qed

lemma string_chars_units: "string_chars (quote_units s @ 0x22 # rest) = Some (s, rest)"
proof (induction s rule: quote_units.induct)
  case 1
  show ?case by simp
next
  case (2 c)
  show ?case by (simp add: string_chars_unit)
next
  case (3 c d s)
  show ?case
  proof (cases "leading_surrogate c \<and> trailing_surrogate d")
    case True
    with 3 show ?thesis
      by (simp add: leading_surrogate_def trailing_surrogate_def)
  next
    case False
    then have "quote_units (c # d # s) = quote_unit c @ quote_units (d # s)" by auto
    then show ?thesis
      using 3(2) [OF False] by (simp only: append_assoc string_chars_unit) simp
  qed
qed

lemma tokens_string:
  "tokens (QuoteJSONString s @ rest) = map_option (Cons (StringToken s)) (tokens rest)"
  by (simp add: QuoteJSONString_def is_json_ws_def string_chars_units)

lemma digits_number_chars: "list_all is_digit s \<Longrightarrow> list_all number_char s"
  by (induction s) (simp_all add: number_char_def)

lemma json_exponent_chars: "json_exponent s \<Longrightarrow> list_all number_char s"
  by (auto simp: json_exponent_def number_char_def digits_number_chars split: list.splits if_splits)

lemma takeWhile_digits: "list_all number_char (takeWhile is_digit r)"
  by (induction r) (simp_all add: number_char_def)

lemma list_all_split:
  assumes "list_all P (takeWhile Q r)" and "list_all P (dropWhile Q r)"
  shows "list_all P r"
proof -
  have "list_all P (takeWhile Q r @ dropWhile Q r)"
    using assms by (simp only: list_all_append)
  then show ?thesis by (simp only: takeWhile_dropWhile_id)
qed

lemma json_fraction_chars:
  assumes "json_fraction s"
  shows "list_all number_char s"
proof (cases s)
  case Nil
  then show ?thesis by simp
next
  case (Cons c r)
  show ?thesis
  proof (cases "c = 0x2E")
    case False
    with assms Cons show ?thesis
      by (auto simp: json_fraction_def number_char_def dest: json_exponent_chars)
  next
    case True
    have "list_all number_char (dropWhile is_digit r)"
    proof (cases "dropWhile is_digit r")
      case Nil
      show ?thesis unfolding Nil by simp
    next
      case (Cons e x)
      with assms \<open>s = c # r\<close> True have "(e = 0x45 \<or> e = 0x65) \<and> json_exponent x"
        by (simp add: json_fraction_def)
      with Cons show ?thesis by (auto simp: number_char_def dest: json_exponent_chars)
    qed
    with takeWhile_digits [of r] have "list_all number_char r" by (rule list_all_split)
    with Cons True show ?thesis by (simp add: number_char_def)
  qed
qed

lemma json_unsigned_chars:
  assumes "json_unsigned s"
  shows "list_all number_char s \<and> s \<noteq> [] \<and> is_digit (hd s)"
proof (cases s)
  case Nil
  with assms show ?thesis by (simp add: json_unsigned_def)
next
  case (Cons c r)
  show ?thesis
  proof (cases "c = 0x30")
    case True
    with assms Cons show ?thesis
      by (auto simp: json_unsigned_def number_char_def is_digit_def dest: json_fraction_chars)
  next
    case False
    with assms Cons have d: "is_digit c" and f: "json_fraction (dropWhile is_digit r)"
      by (auto simp: json_unsigned_def)
    have "list_all number_char r"
      using takeWhile_digits [of r] json_fraction_chars [OF f] by (rule list_all_split)
    with d Cons show ?thesis by (simp add: number_char_def)
  qed
qed

lemma json_number_chars:
  assumes "is_json_number s"
  shows "list_all number_char s \<and> s \<noteq> [] \<and> (hd s = 0x2D \<or> is_digit (hd s))"
proof (cases s)
  case Nil
  with assms show ?thesis by (simp add: is_json_number_def)
next
  case (Cons c r)
  show ?thesis
  proof (cases "c = 0x2D")
    case True
    with assms Cons have "json_unsigned r" by (simp add: is_json_number_def)
    from json_unsigned_chars [OF this] Cons True show ?thesis by (simp add: number_char_def)
  next
    case False
    with assms Cons have "json_unsigned s" by (simp add: is_json_number_def)
    from json_unsigned_chars [OF this] show ?thesis by simp
  qed
qed

lemma number_run:
  assumes "list_all number_char xs" and "ends_number rest"
  shows "takeWhile number_char (xs @ rest) = xs" and "dropWhile number_char (xs @ rest) = rest"
  using assms by (induction xs) (auto simp: ends_number_def split: list.splits)

lemma tokens_number:
  assumes "is_json_number t" and "ends_number rest"
  shows "tokens (t @ rest) = map_option (Cons (NumberToken t)) (tokens rest)"
proof -
  from json_number_chars [OF assms(1)] obtain c r where t: "t = c # r"
    and c: "c = 0x2D \<or> is_digit c" and r: "list_all number_char r"
    by (cases t) auto
  note run = number_run [OF r assms(2)]
  from c have "\<not> is_json_ws c" "c \<noteq> 0x7B" "c \<noteq> 0x7D" "c \<noteq> 0x5B" "c \<noteq> 0x5D" "c \<noteq> 0x3A"
    "c \<noteq> 0x2C" "c \<noteq> 0x22"
    by (auto simp: is_json_ws_def is_digit_def)
  then show ?thesis
    using c assms(1) unfolding t by (simp add: run)
qed

lemma tokens_literals:
  "tokens (js ''null'' @ rest) = map_option (Cons NullToken) (tokens rest)"
  "tokens (js ''true'' @ rest) = map_option (Cons TrueToken) (tokens rest)"
  "tokens (js ''false'' @ rest) = map_option (Cons FalseToken) (tokens rest)"
  by (simp_all add: js_def is_json_ws_def is_digit_def literal_def strip_prefix_def)

lemma map_option_append:
  "map_option ((@) a) (map_option ((@) b) x) = map_option ((@) (a @ b)) x"
  "map_option (Cons t) (map_option ((@) b) x) = map_option ((@) (t # b)) x"
  "map_option ((@) a) (map_option (Cons t) x) = map_option ((@) (a @ [t])) x"
  by (cases x; simp)+

lemma tokens_separated:
  assumes "\<And>x rest. x \<in> set xs \<Longrightarrow> ends_number rest
             \<Longrightarrow> tokens (f x @ rest) = map_option ((@) (g x)) (tokens rest)"
    and "xs \<noteq> []" and "list_all is_json_ws w" and "ends_number tail"
  shows "tokens (join (0x2C # w) (map f xs) @ tail)
       = map_option ((@) (separated ValueSeparator (map g xs))) (tokens tail)"
  using assms(1,2)
proof (induction xs)
  case Nil
  then show ?case by simp
next
  case (Cons x xs)
  note el = Cons.prems(1)
  show ?case
  proof (cases xs)
    case Nil
    then show ?thesis using el [of x tail] assms(4) by simp
  next
    case xs: (Cons y ys)
    have e: "ends_number (0x2C # w @ join (0x2C # w) (map f xs) @ tail)"
      by (simp add: ends_number_def number_char_def is_digit_def)
    have IH: "tokens (join (0x2C # w) (map f xs) @ tail)
       = map_option ((@) (separated ValueSeparator (map g xs))) (tokens tail)"
      using Cons.IH el xs by simp
    have j: "join (0x2C # w) (map f (x # xs)) = f x @ (0x2C # w) @ join (0x2C # w) (map f xs)"
      and sp: "separated ValueSeparator (map g (x # xs))
                = g x @ ValueSeparator # separated ValueSeparator (map g xs)"
      unfolding xs by simp_all
    have "tokens (join (0x2C # w) (map f (x # xs)) @ tail)
        = tokens (f x @ 0x2C # w @ join (0x2C # w) (map f xs) @ tail)"
      unfolding j by simp
    also have "\<dots> = map_option ((@) (g x)) (tokens (0x2C # w @ join (0x2C # w) (map f xs) @ tail))"
      using el [of x, OF _ e] by simp
    also have "tokens (0x2C # w @ join (0x2C # w) (map f xs) @ tail)
        = map_option (Cons ValueSeparator) (tokens (join (0x2C # w) (map f xs) @ tail))"
      using tokens_ws [OF assms(3)] by (simp add: is_json_ws_def)
    finally show ?thesis
      unfolding IH sp by (cases "tokens tail") simp_all
  qed
qed

lemma ws_gap: "list_all is_json_ws gap" "is_json_ws 0x0A"
  by (simp_all add: gap_def js_def is_json_ws_def)

lemma tokens_value:
  assumes "printable pf v" and "list_all is_json_ws indent" and "ends_number rest"
  shows "tokens (SerializeJSONProperty pf indent v @ rest)
       = map_option ((@) (value_tokens pf v)) (tokens rest)"
  using assms
proof (induction v arbitrary: indent rest)
  case Null
  show ?case by (simp add: tokens_literals)
next
  case (Boolean b)
  show ?case by (cases b; simp add: tokens_literals; cases "tokens rest"; simp)
next
  case (Number n)
  then show ?case
    by (cases "isFinite n"; simp add: tokens_literals tokens_number; cases "tokens rest"; simp)
next
  case (String s)
  show ?case by (simp add: tokens_string)
next
  case (Array vs)
  show ?case
  proof (cases "vs = []")
    case True
    then show ?thesis
      by (cases "tokens rest") (simp_all add: js_def is_json_ws_def)
  next
    case False
    let ?ind = "indent @ gap"
    have ws: "list_all is_json_ws ?ind" "list_all is_json_ws (0x0A # ?ind)"
      using Array.prems(2) ws_gap by simp_all
    have tail: "ends_number (0x0A # indent @ 0x5D # rest)"
      by (simp add: ends_number_def number_char_def is_digit_def)
    have el: "tokens (SerializeJSONProperty pf ?ind x @ r)
        = map_option ((@) (value_tokens pf x)) (tokens r)"
      if "x \<in> set vs" and "ends_number r" for x r
      using Array.IH [OF that(1) _ ws(1) that(2)] Array.prems(1) that(1)
      by (simp add: list_all_iff)
    note S = tokens_separated [of vs "SerializeJSONProperty pf ?ind" "value_tokens pf"
        "0x0A # ?ind" "0x0A # indent @ 0x5D # rest", OF el False ws(2) tail]
    have t: "tokens (0x0A # indent @ 0x5D # rest) = map_option (Cons EndArray) (tokens rest)"
      using tokens_ws [OF Array.prems(2), of "0x5D # rest"] by (simp add: is_json_ws_def)
    have "SerializeJSONProperty pf indent (Array vs) @ rest
        = 0x5B # (0x0A # ?ind) @ join (0x2C # 0x0A # ?ind) (map (SerializeJSONProperty pf ?ind) vs)
            @ 0x0A # indent @ 0x5D # rest"
      using False by (simp add: js_def)
    then have "tokens (SerializeJSONProperty pf indent (Array vs) @ rest)
        = map_option (Cons BeginArray)
            (tokens (join (0x2C # 0x0A # ?ind) (map (SerializeJSONProperty pf ?ind) vs)
               @ 0x0A # indent @ 0x5D # rest))"
      using tokens_ws [OF ws(2)] by (simp add: is_json_ws_def)
    then show ?thesis
      by (simp only: S t map_option_append value_tokens.simps)
  qed
next
  case (Object ms)
  show ?case
  proof (cases "ms = []")
    case True
    then show ?thesis
      by (cases "tokens rest") (simp_all add: js_def is_json_ws_def)
  next
    case False
    let ?ind = "indent @ gap"
    let ?f = "\<lambda>(k, v). QuoteJSONString k @ js '': '' @ SerializeJSONProperty pf ?ind v"
    let ?g = "\<lambda>(k, v). StringToken k # NameSeparator # value_tokens pf v"
    have ws: "list_all is_json_ws ?ind" "list_all is_json_ws (0x0A # ?ind)"
      using Object.prems(2) ws_gap by simp_all
    have tail: "ends_number (0x0A # indent @ 0x7D # rest)"
      by (simp add: ends_number_def number_char_def is_digit_def)
    have el: "tokens (?f x @ r) = map_option ((@) (?g x)) (tokens r)"
      if "x \<in> set ms" and "ends_number r" for x r
    proof -
      obtain k v where x: "x = (k, v)" by (cases x)
      have p: "printable pf v" using Object.prems(1) that(1) x by (auto simp: list_all_iff)
      have "v \<in> Basic_BNFs.snds x" using x by simp
      note IH = Object.IH [OF that(1) this p ws(1) that(2)]
      have "tokens (?f x @ r)
          = map_option (Cons (StringToken k)) (tokens (js '': '' @ SerializeJSONProperty pf ?ind v @ r))"
        using x by (simp add: tokens_string)
      also have "tokens (js '': '' @ SerializeJSONProperty pf ?ind v @ r)
          = map_option (Cons NameSeparator) (tokens (SerializeJSONProperty pf ?ind v @ r))"
        by (simp add: js_def is_json_ws_def)
      finally show ?thesis
        using x by (simp add: IH) (cases "tokens r"; simp)
    qed
    note S = tokens_separated [of ms ?f ?g "0x0A # ?ind" "0x0A # indent @ 0x7D # rest",
        OF el False ws(2) tail]
    have t: "tokens (0x0A # indent @ 0x7D # rest) = map_option (Cons EndObject) (tokens rest)"
      using tokens_ws [OF Object.prems(2), of "0x7D # rest"] by (simp add: is_json_ws_def)
    have "SerializeJSONProperty pf indent (Object ms) @ rest
        = 0x7B # (0x0A # ?ind) @ join (0x2C # 0x0A # ?ind) (map ?f ms)
            @ 0x0A # indent @ 0x7D # rest"
      using False by (simp add: js_def)
    then have "tokens (SerializeJSONProperty pf indent (Object ms) @ rest)
        = map_option (Cons BeginObject)
            (tokens (join (0x2C # 0x0A # ?ind) (map ?f ms) @ 0x0A # indent @ 0x7D # rest))"
      using tokens_ws [OF ws(2)] by (simp add: is_json_ws_def)
    then show ?thesis
      by (simp only: S t map_option_append value_tokens.simps)
  qed
qed

lemma run_append:
  "run pf p (ts @ us) = (case run pf p ts of None \<Rightarrow> None | Some p' \<Rightarrow> run pf p' us)"
  by (induction ts arbitrary: p) (simp_all split: option.splits)

lemma run_then: "run pf p ts = Some p' \<Longrightarrow> run pf p (ts @ us) = run pf p' us"
  by (simp add: run_append)

lemma run_elements:
  assumes "\<And>x e stack. x \<in> set xs \<Longrightarrow> e = Value \<or> e = ValueOrEnd
             \<Longrightarrow> run pf (e, stack) (g x) = Some (Complete (h x), stack)"
    and "xs \<noteq> []" and "e = Value \<or> e = ValueOrEnd"
  shows "run pf (e, ArrayFrame acc # stack) (separated ValueSeparator (map g xs) @ [EndArray])
       = Some (Complete (Array (acc @ map h xs)), stack)"
  using assms
proof (induction xs arbitrary: acc e)
  case Nil
  then show ?case by simp
next
  case (Cons x xs)
  note el = Cons.prems(1)
  have first: "run pf (e, ArrayFrame acc # stack) (g x) = Some (Complete (h x), ArrayFrame acc # stack)"
    using el [of x e] Cons.prems(3) by simp
  show ?case
  proof (cases xs)
    case Nil
    then show ?thesis by (simp add: run_then [OF first])
  next
    case xs: (Cons y ys)
    have sp: "separated ValueSeparator (map g (x # xs)) @ [EndArray]
        = g x @ ValueSeparator # (separated ValueSeparator (map g xs) @ [EndArray])"
      unfolding xs by simp
    have IH: "run pf (Value, ArrayFrame (acc @ [h x]) # stack)
          (separated ValueSeparator (map g xs) @ [EndArray])
        = Some (Complete (Array ((acc @ [h x]) @ map h xs)), stack)"
    proof (rule Cons.IH [OF _ _ disjI1 [OF refl]])
      show "xs \<noteq> []" using xs by simp
      show "run pf (e', st) (g x') = Some (Complete (h x'), st)"
        if "x' \<in> set xs" and "e' = Value \<or> e' = ValueOrEnd" for x' e' st
        using el [of x' e' st] that by simp
    qed
    show ?thesis
      unfolding sp by (simp add: run_then [OF first] IH)
  qed
qed

lemma run_members:
  assumes "\<And>k v e stack. (k, v) \<in> set ms \<Longrightarrow> e = Value \<or> e = ValueOrEnd
             \<Longrightarrow> run pf (e, stack) (g v) = Some (Complete (h v), stack)"
    and "ms \<noteq> []" and "e = NameOrEnd \<or> e = Name" and "distinct (map fst (acc @ ms))"
  shows "run pf (e, ObjectFrame acc # stack)
           (separated ValueSeparator (map (\<lambda>(k, v). StringToken k # NameSeparator # g v) ms)
              @ [EndObject])
       = Some (Complete (Object (acc @ map (\<lambda>(k, v). (k, h v)) ms)), stack)"
  using assms
proof (induction ms arbitrary: acc e)
  case Nil
  then show ?case by simp
next
  case (Cons m ms)
  obtain k v where m: "m = (k, v)" by (cases m)
  note el = Cons.prems(1)
  let ?G = "\<lambda>(k, v). StringToken k # NameSeparator # g v"
  have new: "Map_set acc k (h v) = acc @ [(k, h v)]"
    using Cons.prems(4) m by (intro Map_set_new) auto
  have val: "run pf (Value, MemberFrame acc k # stack) (g v)
      = Some (Complete (h v), MemberFrame acc k # stack)"
    using el [of k v Value "MemberFrame acc k # stack"] m by simp
  have first: "run pf (e, ObjectFrame acc # stack) (StringToken k # NameSeparator # g v @ us)
      = run pf (Complete (h v), MemberFrame acc k # stack) us" for us
    using Cons.prems(3) by (auto simp: run_then [OF val])
  show ?case
  proof (cases ms)
    case Nil
    then show ?thesis using m by (simp add: first new del: run.simps(2)) (simp add: new)
  next
    case ms: (Cons y ys)
    have sp: "separated ValueSeparator (map ?G (m # ms)) @ [EndObject]
        = StringToken k # NameSeparator # g v
            @ ValueSeparator # (separated ValueSeparator (map ?G ms) @ [EndObject])"
      unfolding ms m by simp
    have d: "distinct (map fst ((acc @ [(k, h v)]) @ ms))"
      using Cons.prems(4) m by auto
    have IH: "run pf (Name, ObjectFrame (acc @ [(k, h v)]) # stack)
          (separated ValueSeparator (map ?G ms) @ [EndObject])
        = Some (Complete (Object ((acc @ [(k, h v)]) @ map (\<lambda>(k, v). (k, h v)) ms)), stack)"
    proof (rule Cons.IH [OF _ _ disjI2 [OF refl] d])
      show "ms \<noteq> []" using ms by simp
      show "run pf (e', st) (g v') = Some (Complete (h v'), st)"
        if "(k', v') \<in> set ms" and "e' = Value \<or> e' = ValueOrEnd" for k' v' e' st
        using el [of k' v' e' st] that by simp
    qed
    show ?thesis
      unfolding sp first using m by (simp add: new IH)
  qed
qed

lemma run_value:
  assumes "printable pf v" and "e = Value \<or> e = ValueOrEnd"
  shows "run pf (e, stack) (value_tokens pf v) = Some (Complete (read_back pf v), stack)"
  using assms
proof (induction v arbitrary: e stack)
  case Null
  then show ?case by auto
next
  case (Boolean b)
  then show ?case by auto
next
  case (Number n)
  then show ?case by auto
next
  case (String s)
  then show ?case by auto
next
  case (Array vs)
  have start: "step pf (e, stack) BeginArray = Some (ValueOrEnd, ArrayFrame [] # stack)"
    using Array.prems(2) by auto
  show ?case
  proof (cases "vs = []")
    case True
    then show ?thesis using start by simp
  next
    case False
    have el: "run pf (e', st) (value_tokens pf x) = Some (Complete (read_back pf x), st)"
      if "x \<in> set vs" and "e' = Value \<or> e' = ValueOrEnd" for x e' st
      using Array.IH [OF that(1) _ that(2)] Array.prems(1) that(1) by (simp add: list_all_iff)
    note R = run_elements [of vs pf "value_tokens pf" "read_back pf" ValueOrEnd "[]" stack,
        OF el False]
    show ?thesis using start R by simp
  qed
next
  case (Object ms)
  have start: "step pf (e, stack) BeginObject = Some (NameOrEnd, ObjectFrame [] # stack)"
    using Object.prems(2) by auto
  show ?case
  proof (cases "ms = []")
    case True
    then show ?thesis using start by simp
  next
    case False
    have el: "run pf (e', st) (value_tokens pf v) = Some (Complete (read_back pf v), st)"
      if "(k, v) \<in> set ms" and "e' = Value \<or> e' = ValueOrEnd" for k v e' st
    proof -
      have "v \<in> Basic_BNFs.snds (k, v)" by simp
      moreover have "printable pf v" using Object.prems(1) that(1) by (auto simp: list_all_iff)
      ultimately show ?thesis using Object.IH [OF that(1) _ _ that(2)] by blast
    qed
    have d: "distinct (map fst ([] @ ms))" using Object.prems(1) by simp
    note R = run_members [of ms pf "value_tokens pf" "read_back pf" NameOrEnd "[]" stack,
        OF el False _ d]
    show ?thesis using start R by simp
  qed
qed

lemma parse_stringify:
  assumes "printable pf v"
  shows "JSON_parse pf (JSON_stringify pf v) = Some (read_back pf v)"
proof -
  have "tokens (SerializeJSONProperty pf [] v @ []) = map_option ((@) (value_tokens pf v)) (tokens [])"
    by (rule tokens_value [OF assms]) (simp_all add: ends_number_def)
  then have "tokens (JSON_stringify pf v) = Some (value_tokens pf v)"
    by (simp add: JSON_stringify_def)
  then show ?thesis
    by (simp add: JSON_parse_def run_value [OF assms])
qed





























text \<open>
  Negative zero is written \<open>0\<close>, which is read back as zero; the text that is written
  for a small collection, and a text with escapes, white space and a repeated key.
\<close>

lemma negative_zero_read_back:
  "JSON_parse example_platform
     (JSON_stringify example_platform (Array [Number NegZero, Number (Finite 0)]))
   = Some (Array [Number (Finite 0), Number (Finite 0)])"
proof -
  have "printable example_platform (Array [Number NegZero, Number (Finite 0)])"
    by (simp add: example_platform_def example_number_toString_def show_int_def
        is_json_number_def json_unsigned_def json_fraction_def js_def)
  from parse_stringify [OF this] show ?thesis
    by (simp add: example_platform_def example_number_toString_def example_string_toNumber_def
        show_int_def read_digits_def js_def)
qed

lemma stringify_example:
  "JSON_stringify example_platform
     (Array [Object [(js ''a'', Number (Finite 12)), (js ''b'', Array []),
                     (js ''c'', String (js ''x'' @ [0x22, 0x0A] @ js ''y''))]])
   = js ''['' @ [0x0A] @ js ''  {'' @ [0x0A]
     @ js ''    \"a\": 12,'' @ [0x0A]
     @ js ''    \"b\": [],'' @ [0x0A]
     @ js ''    \"c\": \"x'' @ [0x5C, 0x22, 0x5C, 0x6E] @ js ''y\"'' @ [0x0A]
     @ js ''  }'' @ [0x0A] @ js '']''"
  by (simp add: JSON_stringify_def gap_def QuoteJSONString_def quote_unit_def
      leading_surrogate_def trailing_surrogate_def example_platform_def
      example_number_toString_def show_int_def js_def)

lemma parse_example:
  "JSON_parse example_platform
     (js ''{ \"a\" : [1, true, null, \"'' @ [0x5C] @ js ''u00e9'' @ [0x5C] @ js ''n\"], \"b\": {}, \"a\": -7 }'')
   = Some (Object [(js ''a'', Number (Finite (- 7))), (js ''b'', Object [])])"
  by (simp add: JSON_parse_def is_json_ws_def is_digit_def number_char_def is_json_number_def
      json_unsigned_def json_fraction_def literal_def strip_prefix_def hex_value_def
      hex_number_def escaped_def example_platform_def example_string_toNumber_def
      read_digits_def js_def)

end
